theory Spec2Isabelle
  imports Main "HOL-Library.Char_ord" "HOL-Library.List_Lexorder" "HOL-Library.Multiset"
    "HOL-Library.Sublist"
begin

section \<open>Strings and formatting\<close>

text \<open>
  A Go \<open>string\<close> is a sequence of bytes, modelled as \<^typ>\<open>string\<close> (a list of 8-bit
  characters). Go compares strings byte by byte, a proper prefix being smaller: this is the
  lexicographic order of \<open>HOL-Library.List_Lexorder\<close> over the byte order of
  \<open>HOL-Library.Char_ord\<close>. Go's \<open>int\<close> is modelled as \<^typ>\<open>int\<close>: no function below does
  arithmetic on a port, and \<open>Atoi\<close> (the only producer of large values) saturates explicitly.
\<close>

definition digit_char :: "nat \<Rightarrow> char" where
  "digit_char n = char_of (48 + n)"

text \<open>The decimal digits of a natural number, most significant first (\<open>strconv.Itoa\<close>).\<close>

fun digits_of_nat :: "nat \<Rightarrow> string" where
  "digits_of_nat n =
     (if n < 10 then [digit_char n] else digits_of_nat (n div 10) @ [digit_char (n mod 10)])"

declare digits_of_nat.simps [simp del]

text \<open>The verb \<open>%d\<close> of \<open>fmt\<close> applied to an \<open>int\<close>.\<close>

definition fmt_d :: "int \<Rightarrow> string" where
  "fmt_d i = (if i < 0 then CHR ''-'' # digits_of_nat (nat (- i)) else digits_of_nat (nat i))"

section \<open>Standard-library functions used by the code\<close>

text \<open>
  Character classes of the regular expressions (\<open>\d\<close>, \<open>[a-zA-Z0-9]\<close>, \<open>\w\<close>); all
  are ASCII-only in Go's \<open>regexp\<close>.
\<close>

definition is_digit :: "char \<Rightarrow> bool" where
  "is_digit c \<longleftrightarrow> CHR ''0'' \<le> c \<and> c \<le> CHR ''9''"

definition is_alnum :: "char \<Rightarrow> bool" where
  "is_alnum c \<longleftrightarrow> (CHR ''a'' \<le> c \<and> c \<le> CHR ''z'') \<or> (CHR ''A'' \<le> c \<and> c \<le> CHR ''Z'')
     \<or> is_digit c"

definition is_word :: "char \<Rightarrow> bool" where
  "is_word c \<longleftrightarrow> is_alnum c \<or> c = CHR ''_''"

text \<open>\<open>strings.HasPrefix\<close>, \<open>strings.TrimLeft\<close>, \<open>strings.TrimRight\<close> and \<open>strings.Trim\<close>
  with a one-character cutset, \<open>strings.Join\<close>.\<close>

definition HasPrefix :: "string \<Rightarrow> string \<Rightarrow> bool" where
  "HasPrefix s p \<longleftrightarrow> take (length p) s = p"

definition TrimLeft :: "string \<Rightarrow> char \<Rightarrow> string" where
  "TrimLeft s c = dropWhile (\<lambda>x. x = c) s"

definition TrimRight :: "string \<Rightarrow> char \<Rightarrow> string" where
  "TrimRight s c = rev (dropWhile (\<lambda>x. x = c) (rev s))"

definition Trim :: "string \<Rightarrow> char \<Rightarrow> string" where
  "Trim s c = TrimRight (TrimLeft s c) c"

fun Join :: "string list \<Rightarrow> string \<Rightarrow> string" where
  "Join [] sep = []"
| "Join [x] sep = x"
| "Join (x # y # ys) sep = x @ sep @ Join (y # ys) sep"

text \<open>
  \<open>strconv.Atoi\<close>: an optional sign and at least one decimal digit, nothing else. The
  result is \<open>Inr n\<close>, or \<open>Inl v\<close> on an error, \<open>v\<close> being the value that \<open>Atoi\<close> returns
  beside the error and that a caller writing \<open>n, _ := strconv.Atoi(s)\<close> goes on to use:
  \<open>0\<close> on a syntax error, the nearest 64-bit bound when the number is out of range.
\<close>

definition digit_val :: "char \<Rightarrow> int" where
  "digit_val c = of_char c - 48"

definition decimal :: "string \<Rightarrow> int" where
  "decimal ds = foldl (\<lambda>n c. 10 * n + digit_val c) 0 ds"

definition Atoi :: "string \<Rightarrow> int + int" where
  "Atoi s =
     (let neg = (s \<noteq> [] \<and> hd s = CHR ''-'');
          ds = (if s \<noteq> [] \<and> (hd s = CHR ''-'' \<or> hd s = CHR ''+'') then tl s else s)
      in if ds = [] \<or> \<not> list_all is_digit ds then Inl 0
         else let n = decimal ds in
           if neg then (if n > 2 ^ 63 then Inl (- (2 ^ 63)) else Inr (- n))
           else (if n > 2 ^ 63 - 1 then Inl (2 ^ 63 - 1) else Inr n))"

text \<open>\<open>n, _ := strconv.Atoi(s)\<close>: the value, the error dropped.\<close>

definition Atoi_value :: "string \<Rightarrow> int" where
  "Atoi_value s = (case Atoi s of Inl v \<Rightarrow> v | Inr n \<Rightarrow> n)"

text \<open>
  \<open>strings.ToLower\<close> on a string of ASCII characters; the code applies it to text that a
  regular expression has restricted to \<open>\w+\<close>.
\<close>

definition ascii_lower :: "char \<Rightarrow> char" where
  "ascii_lower c = (if CHR ''A'' \<le> c \<and> c \<le> CHR ''Z'' then char_of (of_char c + 32 :: nat) else c)"

text \<open>
  Runes. \<open>strings.ToLower\<close> and \<open>strings.Map\<close> read a string rune by rune, as UTF-8: a
  well-formed sequence of one to four bytes is one rune, and any byte that does not start
  one is the rune \<open>U+FFFD\<close> of width one (\<open>utf8.DecodeRuneInString\<close>). Bytes and runes are
  natural numbers here.
\<close>

definition RuneError :: nat where
  "RuneError = 0xFFFD"

definition is_cont :: "nat \<Rightarrow> bool" where
  "is_cont b \<longleftrightarrow> 0x80 \<le> b \<and> b \<le> 0xBF"

fun decode_runes :: "nat list \<Rightarrow> nat list" where
  "decode_runes [] = []"
| "decode_runes (b0 # bs) =
     (if b0 < 0x80 then b0 # decode_runes bs
      else if 0xC2 \<le> b0 \<and> b0 \<le> 0xDF then
        (case bs of
           b1 # r \<Rightarrow>
             if is_cont b1 then ((b0 - 0xC0) * 64 + (b1 - 0x80)) # decode_runes r
             else RuneError # decode_runes bs
         | _ \<Rightarrow> RuneError # decode_runes bs)
      else if 0xE0 \<le> b0 \<and> b0 \<le> 0xEF then
        (case bs of
           b1 # b2 # r \<Rightarrow>
             if (if b0 = 0xE0 then 0xA0 else 0x80) \<le> b1
                \<and> b1 \<le> (if b0 = 0xED then 0x9F else 0xBF) \<and> is_cont b2
             then ((b0 - 0xE0) * 4096 + (b1 - 0x80) * 64 + (b2 - 0x80)) # decode_runes r
             else RuneError # decode_runes bs
         | _ \<Rightarrow> RuneError # decode_runes bs)
      else if 0xF0 \<le> b0 \<and> b0 \<le> 0xF4 then
        (case bs of
           b1 # b2 # b3 # r \<Rightarrow>
             if (if b0 = 0xF0 then 0x90 else 0x80) \<le> b1
                \<and> b1 \<le> (if b0 = 0xF4 then 0x8F else 0xBF) \<and> is_cont b2 \<and> is_cont b3
             then ((b0 - 0xF0) * 262144 + (b1 - 0x80) * 4096 + (b2 - 0x80) * 64 + (b3 - 0x80))
               # decode_runes r
             else RuneError # decode_runes bs
         | _ \<Rightarrow> RuneError # decode_runes bs)
      else RuneError # decode_runes bs)"

definition runes :: "string \<Rightarrow> nat list" where
  "runes s = decode_runes (map of_char s)"

text \<open>
  \<open>unicode.ToLower\<close>: on ASCII it maps \<open>A\<close>..\<open>Z\<close> to \<open>a\<close>..\<open>z\<close> and nothing else; beyond
  ASCII it reads the Unicode case tables, which are not part of this program and are the
  parameter \<open>lower\<close>.
\<close>

definition ToLower_rune :: "(nat \<Rightarrow> nat) \<Rightarrow> nat \<Rightarrow> nat" where
  "ToLower_rune lower r = (if r < 128 then (if 65 \<le> r \<and> r \<le> 90 then r + 32 else r) else lower r)"

section \<open>The dependency model (package model)\<close>

datatype Confidence = High | Medium | Low

record NetworkDependency =
  Source :: string
  Target :: string
  Port :: int
  Protocol :: string
  Description :: string
  Confidence :: Confidence
  SourceFile :: string

text \<open>\<open>Key\<close>: \<open>fmt.Sprintf("%s->%s:%d/%s", d.Source, d.Target, d.Port, d.Protocol)\<close>.\<close>

definition Key :: "NetworkDependency \<Rightarrow> string" where
  "Key d = Source d @ ''->'' @ Target d @ '':'' @ fmt_d (Port d) @ ''/'' @ Protocol d"

text \<open>
  A \<open>map[string]bool\<close> is a partial map; reading a key that is absent gives \<open>false\<close>.
\<close>

definition map_get_bool :: "('k \<rightharpoonup> bool) \<Rightarrow> 'k \<Rightarrow> bool" where
  "map_get_bool m k = (case m k of None \<Rightarrow> False | Some b \<Rightarrow> b)"

record DependencySet =
  ServiceName :: string
  deps :: "NetworkDependency list"
  seen :: "string \<rightharpoonup> bool"

definition NewDependencySet :: "string \<Rightarrow> DependencySet" where
  "NewDependencySet name = \<lparr>ServiceName = name, deps = [], seen = Map.empty\<rparr>"

text \<open>\<open>Add\<close> mutates the set through its pointer receiver; the model returns the new set.\<close>

definition Add :: "DependencySet \<Rightarrow> NetworkDependency \<Rightarrow> DependencySet" where
  "Add ds dep =
     (let key = Key dep in
      if map_get_bool (seen ds) key then ds
      else ds\<lparr>seen := (seen ds)(key \<mapsto> True), deps := deps ds @ [dep]\<rparr>)"

definition Len :: "DependencySet \<Rightarrow> int" where
  "Len ds = int (length (deps ds))"

text \<open>
  \<open>sort.Slice(s, less)\<close> with \<open>less i j = s[i].Key() < s[j].Key()\<close> reorders \<open>s\<close> so that the
  keys ascend. The library's algorithm is not stable; the model is the insertion sort
  \<^const>\<open>sort_key\<close>. The two can only differ in the order of elements with equal keys, and a
  set built by \<^const>\<open>Add\<close> has none (lemmas \<open>reachable_distinct_keys\<close> and
  \<open>sorted_by_Key_unique\<close> below).
\<close>

definition sort_Slice_by_Key :: "NetworkDependency list \<Rightarrow> NetworkDependency list" where
  "sort_Slice_by_Key xs = sort_key Key xs"

definition Dependencies :: "DependencySet \<Rightarrow> NetworkDependency list" where
  "Dependencies ds = sort_Slice_by_Key (deps ds)"

definition Merge :: "DependencySet \<Rightarrow> DependencySet \<Rightarrow> DependencySet" where
  "Merge ds other = foldl Add ds (deps other)"

definition IngressFor :: "DependencySet \<Rightarrow> string \<Rightarrow> NetworkDependency list" where
  "IngressFor ds service = sort_Slice_by_Key (filter (\<lambda>dep. Target dep = service) (deps ds))"

definition EgressFor :: "DependencySet \<Rightarrow> string \<Rightarrow> NetworkDependency list" where
  "EgressFor ds service = sort_Slice_by_Key (filter (\<lambda>dep. Source dep = service) (deps ds))"


text \<open>Two facts with the same identity and different description, confidence and file.\<close>

definition ex_redis :: NetworkDependency where
  "ex_redis = \<lparr>Source = ''app'', Target = ''redis'', Port = 6379, Protocol = ''TCP'',
     Description = ''Redis'', Confidence = Low, SourceFile = ''pom.xml''\<rparr>"

definition ex_redis_again :: NetworkDependency where
  "ex_redis_again = \<lparr>Source = ''app'', Target = ''redis'', Port = 6379, Protocol = ''TCP'',
     Description = ''cache'', Confidence = High, SourceFile = ''application.yml''\<rparr>"

definition ex_zookeeper :: NetworkDependency where
  "ex_zookeeper = \<lparr>Source = ''app'', Target = ''zookeeper'', Port = 2181, Protocol = ''TCP'',
     Description = [], Confidence = High, SourceFile = []\<rparr>"

definition ex_kafka :: NetworkDependency where
  "ex_kafka = \<lparr>Source = ''app'', Target = ''kafka'', Port = 9092, Protocol = ''TCP'',
     Description = [], Confidence = High, SourceFile = []\<rparr>"

section \<open>The Spring extractor (package parser): JDBC URLs\<close>

text \<open>
  \<open>jdbcPattern = ^jdbc:(\w+)://([^/:]+)(?::(\d+))?\<close>. The pattern is anchored and each of
  its repetitions is followed by something its own characters cannot start, so the leftmost
  match takes the longest run every time: the word characters after \<open>jdbc:\<close>, then \<open>://\<close>,
  then the characters up to the first \<open>/\<close> or \<open>:\<close> (a negated class also matches a line feed
  and bytes beyond ASCII), then, if a colon and a digit follow, all the digits. The result
  is \<open>matches[1]\<close>, \<open>matches[2]\<close>, \<open>matches[3]\<close> of \<open>FindStringSubmatch\<close>, a group that did
  not take part being the empty string, or \<open>None\<close> for \<open>nil\<close>.
\<close>

definition is_jdbc_host_char :: "char \<Rightarrow> bool" where
  "is_jdbc_host_char c \<longleftrightarrow> c \<noteq> CHR ''/'' \<and> c \<noteq> CHR '':''"

definition jdbcPattern :: "string \<Rightarrow> (string \<times> string \<times> string) option" where
  "jdbcPattern raw =
     (if \<not> HasPrefix raw ''jdbc:'' then None
      else let r1 = drop 5 raw;
               driver = takeWhile is_word r1;
               r2 = dropWhile is_word r1
        in if driver = [] \<or> \<not> HasPrefix r2 ''://'' then None
           else let r3 = drop 3 r2;
                    host = takeWhile is_jdbc_host_char r3;
                    r4 = dropWhile is_jdbc_host_char r3
             in if host = [] then None
                else Some (driver, host,
                  (case r4 of
                     [] \<Rightarrow> []
                   | c # r5 \<Rightarrow> if c = CHR '':'' then takeWhile is_digit r5 else [])))"

definition jdbcDescriptions :: "string \<rightharpoonup> string" where
  "jdbcDescriptions = map_of
     [(''postgresql'', ''PostgreSQL''), (''postgres'', ''PostgreSQL''), (''mysql'', ''MySQL''),
      (''mariadb'', ''MariaDB''), (''sqlserver'', ''SQL Server''), (''oracle'', ''Oracle''),
      (''h2'', ''H2'')]"

definition jdbcDefaultPorts :: "string \<rightharpoonup> int" where
  "jdbcDefaultPorts = map_of
     [(''postgresql'', 5432), (''postgres'', 5432), (''mysql'', 3306), (''mariadb'', 3306),
      (''oracle'', 1521), (''sqlserver'', 1433), (''mssql'', 1433)]"

definition jdbcSkipDrivers :: "string \<rightharpoonup> bool" where
  "jdbcSkipDrivers = map_of [(''h2'', True), (''derby'', True)]"

text \<open>
  \<open>parseJDBC\<close> returns a dependency and a flag; the model returns \<open>None\<close> where the flag is
  \<open>false\<close>. The driver is made of word characters, so \<open>strings.ToLower\<close> is the ASCII
  lower-casing. The source of the fact is left empty.
\<close>

definition parseJDBC :: "string \<Rightarrow> string \<Rightarrow> NetworkDependency option" where
  "parseJDBC raw sourceFile =
     (case jdbcPattern raw of
        None \<Rightarrow> None
      | Some (m1, host, m3) \<Rightarrow>
          let driver = map ascii_lower m1;
              desc = (case jdbcDescriptions driver of Some d \<Rightarrow> d | None \<Rightarrow> driver)
          in if map_get_bool jdbcSkipDrivers driver then None
             else if m3 \<noteq> [] then
               Some \<lparr>Source = [], Target = host, Port = Atoi_value m3, Protocol = ''TCP'',
                 Description = desc, Confidence = High, SourceFile = sourceFile\<rparr>
             else (case jdbcDefaultPorts driver of
                 None \<Rightarrow> None
               | Some defaultPort \<Rightarrow>
                   Some \<lparr>Source = [], Target = host, Port = defaultPort, Protocol = ''TCP'',
                     Description = desc, Confidence = Medium, SourceFile = sourceFile\<rparr>))"

text \<open>
  What follows the host of a JDBC URL when the literal has no port: nothing, a \<open>/\<close>, or a
  colon that no digit follows.
\<close>

definition jdbc_no_port :: "string \<Rightarrow> bool" where
  "jdbc_no_port rest \<longleftrightarrow>
     rest = [] \<or> hd rest = CHR ''/''
     \<or> (hd rest = CHR '':'' \<and> (tl rest = [] \<or> \<not> is_digit (hd (tl rest))))"

section \<open>Name sanitization (package renderer)\<close>

text \<open>
  The function given to \<open>strings.Map\<close> in \<open>sanitizeName\<close>: a rune in \<open>[a-z0-9-]\<close> is kept,
  any other becomes \<open>-\<close>.
\<close>

definition sanitize_rune :: "nat \<Rightarrow> char" where
  "sanitize_rune r =
     (if (97 \<le> r \<and> r \<le> 122) \<or> (48 \<le> r \<and> r \<le> 57) \<or> r = 45 then char_of r else CHR ''-'')"

text \<open>
  \<open>sanitizeName\<close>, statement by statement. \<open>strings.ToLower\<close> maps every rune of \<open>s\<close>
  through \<open>unicode.ToLower\<close>; \<open>strings.Map\<close> then maps every rune of the result, so that
  each rune of the input, of whatever width, gives one byte. From there on the string is
  ASCII, and \<open>len\<close> and \<open>s[:63]\<close> count bytes.
\<close>

definition sanitizeName :: "(nat \<Rightarrow> nat) \<Rightarrow> string \<Rightarrow> string" where
  "sanitizeName lower s0 =
     (let s1 = map (ToLower_rune lower) (runes s0);
          s2 = map sanitize_rune s1;
          s3 = Trim s2 (CHR ''-'');
          s4 = (if length s3 > 63 then take 63 s3 else s3);
          s5 = TrimRight s4 (CHR ''-'');
          s6 = (if s5 = [] then ''unknown'' else s5)
      in s6)"

text \<open>The characters of a Kubernetes resource name that \<open>sanitizeName\<close> lets through.\<close>

definition name_char :: "char \<Rightarrow> bool" where
  "name_char c \<longleftrightarrow> (CHR ''a'' \<le> c \<and> c \<le> CHR ''z'') \<or> is_digit c \<or> c = CHR ''-''"

section \<open>The Spring extractor (package parser): values, YAML and properties\<close>

text \<open>
  \<open>url.Parse\<close> is the standard library's URL parser and not part of this program. The
  functions that call it on a value take its result as an argument: \<open>None\<close> for an error,
  or the fields \<open>Scheme\<close> and \<open>Host\<close> of the URL. The methods \<open>Hostname\<close> and \<open>Port\<close> are
  \<open>splitHostPort\<close> of package \<open>net/url\<close>: the text after the last colon is the port when it
  is all digits (or empty), and square brackets around the host are removed.
\<close>

record URL =
  Scheme :: string
  Host :: string

definition splitHostPort :: "string \<Rightarrow> string \<times> string" where
  "splitHostPort hostPort =
     (let after = rev (takeWhile (\<lambda>c. c \<noteq> CHR '':'') (rev hostPort));
          has_colon = (CHR '':'' \<in> set hostPort);
          split = (has_colon \<and> list_all is_digit after);
          host = (if split then take (length hostPort - length after - 1) hostPort else hostPort);
          port = (if split then after else []);
          host' = (if HasPrefix host ''['' \<and> host \<noteq> [] \<and> last host = CHR '']''
                   then butlast (tl host) else host)
      in (host', port))"

definition Hostname :: "URL \<Rightarrow> string" where
  "Hostname u = fst (splitHostPort (Host u))"

definition PortOf :: "URL \<Rightarrow> string" where
  "PortOf u = snd (splitHostPort (Host u))"

text \<open>
  The two host:port patterns, \<open>hostPortPattern = ([a-zA-Z0-9][-a-zA-Z0-9_.]+):(\d{2,5})\<close> of
  the Spring extractor and \<open>hostPortRe = ([a-zA-Z0-9][-a-zA-Z0-9.]*):(\d{2,5})\<close> of the
  Kubernetes extractor, differ in the class of the host characters and in the least number
  of them after the first. A match at a given position takes the first character, then the
  longest run of host characters (no shorter run can be followed by a colon, which is not a
  host character), then the colon, then the digits, at most five. The result is the host,
  the port and the text after the match.
\<close>

definition host_port_at :: "(char \<Rightarrow> bool) \<Rightarrow> nat \<Rightarrow> string \<Rightarrow> (string \<times> string \<times> string) option" where
  "host_port_at cls least s =
     (case s of
        [] \<Rightarrow> None
      | c # cs \<Rightarrow>
          if \<not> is_alnum c then None
          else let run = takeWhile cls cs; r = dropWhile cls cs
            in if length run < least then None
               else (case r of
                   [] \<Rightarrow> None
                 | d # r' \<Rightarrow>
                     if d \<noteq> CHR '':'' then None
                     else let port = take 5 (takeWhile is_digit r')
                       in if length port < 2 then None
                          else Some (c # run, port, drop (length port) r')))"

text \<open>\<open>FindStringSubmatch\<close>: the match at the leftmost position that has one.\<close>

fun host_port_find :: "(char \<Rightarrow> bool) \<Rightarrow> nat \<Rightarrow> string \<Rightarrow> (string \<times> string \<times> string) option" where
  "host_port_find cls least [] = None"
| "host_port_find cls least (c # cs) =
     (case host_port_at cls least (c # cs) of
        Some m \<Rightarrow> Some m
      | None \<Rightarrow> host_port_find cls least cs)"

definition is_spring_host_char :: "char \<Rightarrow> bool" where
  "is_spring_host_char c \<longleftrightarrow> is_alnum c \<or> c = CHR ''-'' \<or> c = CHR ''_'' \<or> c = CHR ''.''"

definition hostPortPattern :: "string \<Rightarrow> (string \<times> string \<times> string) option" where
  "hostPortPattern s = host_port_find is_spring_host_char 1 s"

text \<open>
  \<open>strings.TrimSpace\<close> removes the leading and trailing white space of Unicode: six ASCII
  characters and, in UTF-8, \<open>U+0085\<close>, \<open>U+00A0\<close>, \<open>U+1680\<close>, \<open>U+2000\<close> to \<open>U+200A\<close>,
  \<open>U+2028\<close>, \<open>U+2029\<close>, \<open>U+202F\<close>, \<open>U+205F\<close> and \<open>U+3000\<close>. \<open>space_width bs\<close> is the
  number of bytes of the white-space character that the bytes \<open>bs\<close> start with, or \<open>0\<close>.
\<close>

definition space_width :: "nat list \<Rightarrow> nat" where
  "space_width bs =
     (case bs of
        [] \<Rightarrow> 0
      | b0 # r0 \<Rightarrow>
          if b0 = 32 \<or> (9 \<le> b0 \<and> b0 \<le> 13) then 1
          else (case r0 of
              [] \<Rightarrow> 0
            | b1 # r1 \<Rightarrow>
                if b0 = 0xC2 \<and> (b1 = 0x85 \<or> b1 = 0xA0) then 2
                else (case r1 of
                    [] \<Rightarrow> 0
                  | b2 # r2 \<Rightarrow>
                      if (b0 = 0xE1 \<and> b1 = 0x9A \<and> b2 = 0x80)
                         \<or> (b0 = 0xE2 \<and> b1 = 0x80
                             \<and> ((0x80 \<le> b2 \<and> b2 \<le> 0x8A) \<or> b2 = 0xA8 \<or> b2 = 0xA9 \<or> b2 = 0xAF))
                         \<or> (b0 = 0xE2 \<and> b1 = 0x81 \<and> b2 = 0x9F)
                         \<or> (b0 = 0xE3 \<and> b1 = 0x80 \<and> b2 = 0x80)
                      then 3 else 0)))"

text \<open>The same for the character that the bytes end with, read from the reversed list.\<close>

definition space_width_rev :: "nat list \<Rightarrow> nat" where
  "space_width_rev sb =
     (case sb of
        [] \<Rightarrow> 0
      | b0 # r0 \<Rightarrow>
          if b0 = 32 \<or> (9 \<le> b0 \<and> b0 \<le> 13) then 1
          else (case r0 of
              [] \<Rightarrow> 0
            | b1 # r1 \<Rightarrow> if space_width [b1, b0] = 2 then 2
                else (case r1 of
                    [] \<Rightarrow> 0
                  | b2 # r2 \<Rightarrow> if space_width [b2, b1, b0] = 3 then 3 else 0)))"

fun trim_space_left :: "string \<Rightarrow> string" where
  "trim_space_left [] = []"
| "trim_space_left (c # cs) =
     (let w = space_width (map of_char (take 3 (c # cs)))
      in if w = 0 then c # cs else trim_space_left (drop (w - 1) cs))"

fun trim_space_right_rev :: "string \<Rightarrow> string" where
  "trim_space_right_rev [] = []"
| "trim_space_right_rev (c # cs) =
     (let w = space_width_rev (map of_char (take 3 (c # cs)))
      in if w = 0 then c # cs else trim_space_right_rev (drop (w - 1) cs))"

definition TrimSpace :: "string \<Rightarrow> string" where
  "TrimSpace s = rev (trim_space_right_rev (rev (trim_space_left s)))"

text \<open>
  \<open>strings.Index\<close> and \<open>strings.IndexAny\<close> for single characters: the parts of a string
  before and after the first character that satisfies \<open>P\<close>, if there is one.
\<close>

definition cut_at :: "(char \<Rightarrow> bool) \<Rightarrow> string \<Rightarrow> (string \<times> string) option" where
  "cut_at P s =
     (case dropWhile (\<lambda>c. \<not> P c) s of
        [] \<Rightarrow> None
      | c # r \<Rightarrow> Some (takeWhile (\<lambda>c. \<not> P c) s, r))"

text \<open>\<open>strings.Split(s, ",")\<close>.\<close>

fun Split_comma :: "string \<Rightarrow> string list" where
  "Split_comma [] = [[]]"
| "Split_comma (c # cs) =
     (if c = CHR 0x2C then [] # Split_comma cs
      else (case Split_comma cs of
          [] \<Rightarrow> [[c]]
        | p # ps \<Rightarrow> (c # p) # ps))"

text \<open>The subset of a Spring document that \<open>springConfig\<close> decodes, field by field.\<close>

record springConfig =
  Spring_Datasource_URL :: string
  Spring_Redis_Host :: string
  Spring_Redis_Port :: int
  Spring_Data_Redis_Host :: string
  Spring_Data_Redis_Port :: int
  Spring_Kafka_BootstrapServers :: string
  Spring_RabbitMQ_Host :: string
  Spring_RabbitMQ_Port :: int
  Server_Port :: int

text \<open>The facts of this extractor have no source; \<open>mk_dep\<close> fills the other fields.\<close>

definition mk_dep :: "string \<Rightarrow> int \<Rightarrow> string \<Rightarrow> Confidence \<Rightarrow> string \<Rightarrow> NetworkDependency" where
  "mk_dep target port desc conf path =
     \<lparr>Source = [], Target = target, Port = port, Protocol = ''TCP'', Description = desc,
      Confidence = conf, SourceFile = path\<rparr>"

definition parseKafkaBrokers :: "string \<Rightarrow> (string \<times> int) list" where
  "parseKafkaBrokers s =
     concat (map (\<lambda>part.
        case hostPortPattern (TrimSpace part) of
          None \<Rightarrow> []
        | Some (host, port, rest) \<Rightarrow> [(host, Atoi_value port)]) (Split_comma s))"

text \<open>\<open>extractSpringDeps\<close>: each \<open>if\<close> of the source appends its facts in turn.\<close>

definition extractSpringDeps :: "springConfig \<Rightarrow> string \<Rightarrow> NetworkDependency list" where
  "extractSpringDeps cfg path =
     (if Spring_Datasource_URL cfg \<noteq> [] then
        (case parseJDBC (Spring_Datasource_URL cfg) path of Some d \<Rightarrow> [d] | None \<Rightarrow> [])
      else [])
     @ (if Spring_Redis_Host cfg \<noteq> [] then
          [mk_dep (Spring_Redis_Host cfg)
             (if Spring_Redis_Port cfg = 0 then 6379 else Spring_Redis_Port cfg)
             ''Redis'' High path]
        else [])
     @ (if Spring_Data_Redis_Host cfg \<noteq> [] then
          [mk_dep (Spring_Data_Redis_Host cfg)
             (if Spring_Data_Redis_Port cfg = 0 then 6379 else Spring_Data_Redis_Port cfg)
             ''Redis'' High path]
        else [])
     @ (if Spring_Kafka_BootstrapServers cfg \<noteq> [] then
          map (\<lambda>(host, port). mk_dep host port ''Kafka'' High path)
            (parseKafkaBrokers (Spring_Kafka_BootstrapServers cfg))
        else [])
     @ (if Spring_RabbitMQ_Host cfg \<noteq> [] then
          [mk_dep (Spring_RabbitMQ_Host cfg)
             (if Spring_RabbitMQ_Port cfg = 0 then 5672 else Spring_RabbitMQ_Port cfg)
             ''RabbitMQ'' High path]
        else [])
     @ (if Server_Port cfg \<noteq> 0 then
          [mk_dep ''self'' (Server_Port cfg) ''server listening port'' High path]
        else [])"

text \<open>
  \<open>extractFromValue\<close>; \<open>u\<close> is the result of \<open>url.Parse(val)\<close>, which the function only
  looks at when the value starts with \<open>http://\<close> or \<open>https://\<close>.
\<close>

definition extractFromValue :: "URL option \<Rightarrow> string \<Rightarrow> string \<Rightarrow> NetworkDependency option" where
  "extractFromValue u val sourceFile =
     (case parseJDBC val sourceFile of
        Some d \<Rightarrow> Some d
      | None \<Rightarrow>
          (case (if HasPrefix val ''http://'' \<or> HasPrefix val ''https://'' then
                   (case u of
                      Some url \<Rightarrow>
                        if Host url \<noteq> [] then
                          Some (mk_dep (Hostname url)
                            (if PortOf url \<noteq> [] then Atoi_value (PortOf url)
                             else if Scheme url = ''https'' then 443 else 80)
                            ''HTTP service'' High sourceFile)
                        else None
                    | None \<Rightarrow> None)
                 else None) of
             Some d \<Rightarrow> Some d
           | None \<Rightarrow>
               (case hostPortPattern val of
                  Some (host, port, rest) \<Rightarrow>
                    Some (mk_dep host (Atoi_value port) ''network service'' Medium sourceFile)
                | None \<Rightarrow> None)))"

text \<open>\<open>mergeUnique\<close>: the key of a fact is \<open>fmt.Sprintf("%s:%d", d.Target, d.Port)\<close>.\<close>

definition target_port_key :: "NetworkDependency \<Rightarrow> string" where
  "target_port_key d = Target d @ '':'' @ fmt_d (Port d)"

fun mergeUnique_loop :: "(string \<rightharpoonup> bool) \<Rightarrow> NetworkDependency list \<Rightarrow> NetworkDependency list
    \<Rightarrow> NetworkDependency list" where
  "mergeUnique_loop sn base [] = base"
| "mergeUnique_loop sn base (d # extra) =
     (let key = target_port_key d
      in if \<not> map_get_bool sn key
         then mergeUnique_loop (sn(key \<mapsto> True)) (base @ [d]) extra
         else mergeUnique_loop sn base extra)"

definition mergeUnique :: "NetworkDependency list \<Rightarrow> NetworkDependency list \<Rightarrow> NetworkDependency list" where
  "mergeUnique base extra =
     mergeUnique_loop (foldl (\<lambda>sn d. sn(target_port_key d \<mapsto> True)) Map.empty base) base extra"

definition isHandledSpringKey :: "string \<Rightarrow> bool" where
  "isHandledSpringKey key \<longleftrightarrow>
     key \<in> set [''spring.datasource.url'', ''spring.redis.host'', ''spring.redis.port'',
       ''spring.kafka.bootstrap-servers'', ''spring.rabbitmq.host'', ''spring.rabbitmq.port'',
       ''server.port'']"

text \<open>
  The properties file. Opening and scanning it can fail; otherwise the scanner yields its
  lines. The map \<open>props\<close> is an association list with one entry for each key, in the order
  in which the keys first occur; Go visits the entries of a map in an order that it does
  not specify, and the final loop of \<open>parseSpringProperties\<close> is modelled in this order.
\<close>

datatype file_read = OpenError | ScanError | Lines "string list"

datatype parse_error = ReadingFailed string | ScanningFailed string

fun props_put :: "string \<Rightarrow> string \<Rightarrow> (string \<times> string) list \<Rightarrow> (string \<times> string) list" where
  "props_put k v [] = [(k, v)]"
| "props_put k v ((k', v') # ps) =
     (if k' = k then (k, v) # ps else (k', v') # props_put k v ps)"

definition props_line :: "(string \<times> string) list \<Rightarrow> string \<Rightarrow> (string \<times> string) list" where
  "props_line props text =
     (let line = TrimSpace text
      in if line = [] \<or> HasPrefix line ''#'' \<or> HasPrefix line ''!'' then props
         else (case cut_at (\<lambda>c. c = CHR ''='' \<or> c = CHR '':'') line of
             None \<Rightarrow> props
           | Some (key, val) \<Rightarrow> props_put (TrimSpace key) (TrimSpace val) props))"

definition port_or :: "int \<Rightarrow> string option \<Rightarrow> int" where
  "port_or dflt p =
     (case p of
        None \<Rightarrow> dflt
      | Some s \<Rightarrow> (case Atoi s of Inr n \<Rightarrow> n | Inl e \<Rightarrow> dflt))"

definition spring_known_props :: "(string \<rightharpoonup> string) \<Rightarrow> string \<Rightarrow> NetworkDependency list" where
  "spring_known_props props path =
     (case props ''spring.datasource.url'' of
        Some v \<Rightarrow> (case parseJDBC v path of Some d \<Rightarrow> [d] | None \<Rightarrow> [])
      | None \<Rightarrow> [])
     @ (case props ''spring.redis.host'' of
          Some host \<Rightarrow> [mk_dep host (port_or 6379 (props ''spring.redis.port'')) ''Redis'' High path]
        | None \<Rightarrow> [])
     @ (case props ''spring.kafka.bootstrap-servers'' of
          Some v \<Rightarrow> map (\<lambda>(host, port). mk_dep host port ''Kafka'' High path) (parseKafkaBrokers v)
        | None \<Rightarrow> [])
     @ (case props ''spring.rabbitmq.host'' of
          Some host \<Rightarrow>
            [mk_dep host (port_or 5672 (props ''spring.rabbitmq.port'')) ''RabbitMQ'' High path]
        | None \<Rightarrow> [])
     @ (case props ''server.port'' of
          Some v \<Rightarrow>
            (case Atoi v of
               Inr port \<Rightarrow> [mk_dep ''self'' port ''server listening port'' High path]
             | Inl e \<Rightarrow> [])
        | None \<Rightarrow> [])"

definition parseSpringProperties ::
    "(string \<Rightarrow> URL option) \<Rightarrow> file_read \<Rightarrow> string \<Rightarrow> parse_error + NetworkDependency list" where
  "parseSpringProperties url_Parse file path =
     (case file of
        OpenError \<Rightarrow> Inl (ReadingFailed path)
      | ScanError \<Rightarrow> Inl (ScanningFailed path)
      | Lines texts \<Rightarrow>
          let props = foldl props_line [] texts;
              known = spring_known_props (map_of props) path
          in Inr (foldl (\<lambda>acc (key, val).
                if isHandledSpringKey key then acc
                else (case extractFromValue (url_Parse val) val path of
                    Some d \<Rightarrow> mergeUnique acc [d]
                  | None \<Rightarrow> acc)) known props))"

section \<open>The Kubernetes extractor (package parser): values\<close>

definition is_k8s_host_char :: "char \<Rightarrow> bool" where
  "is_k8s_host_char c \<longleftrightarrow> is_alnum c \<or> c = CHR ''-'' \<or> c = CHR ''.''"

definition is_label_char :: "char \<Rightarrow> bool" where
  "is_label_char c \<longleftrightarrow> is_alnum c \<or> c = CHR ''-''"

definition hostPortRe :: "string \<Rightarrow> (string \<times> string \<times> string) option" where
  "hostPortRe s = host_port_find is_k8s_host_char 0 s"

text \<open>
  \<open>FindAllStringSubmatch(value, -1)\<close>: the leftmost match, then the leftmost match in what
  follows it, and so on. The pattern has no anchor and no look-behind, so a match in the
  rest of the string is a match of the rest alone.
\<close>

lemma host_port_at_shorter:
  assumes "host_port_at cls least s = Some (h, p, rest)"
  shows "length rest < length s"
proof (cases s)
  case Nil
  with assms show ?thesis
    by (simp add: host_port_at_def)
next
  case (Cons c cs)
  define r where "r = dropWhile cls cs"
  have len: "length r \<le> length cs"
    unfolding r_def by (rule length_dropWhile_le)
  from assms Cons have
    "(case r of
        [] \<Rightarrow> None
      | d # r' \<Rightarrow>
          if d \<noteq> CHR '':'' then None
          else let port = take 5 (takeWhile is_digit r')
            in if length port < 2 then None
               else Some (c # takeWhile cls cs, port, drop (length port) r'))
     = Some (h, p, rest)"
    unfolding r_def by (simp add: host_port_at_def Let_def split: if_splits)
  then obtain d r' where "r = d # r'" and "rest = drop (length p) r'"
    by (cases r) (auto simp: Let_def split: if_splits)
  with len Cons show ?thesis
    by simp
qed

lemma host_port_find_shorter:
  "host_port_find cls least s = Some (h, p, rest) \<Longrightarrow> length rest < length s"
proof (induction s)
  case Nil
  then show ?case by simp
next
  case (Cons c cs)
  show ?case
  proof (cases "host_port_at cls least (c # cs)")
    case None
    with Cons show ?thesis by fastforce
  next
    case (Some m)
    with Cons.prems have "host_port_at cls least (c # cs) = Some (h, p, rest)" by simp
    then show ?thesis by (rule host_port_at_shorter)
  qed
qed

function hostPortRe_all :: "string \<Rightarrow> (string \<times> string) list" where
  "hostPortRe_all s =
     (case hostPortRe s of
        None \<Rightarrow> []
      | Some (host, port, rest) \<Rightarrow> (host, port) # hostPortRe_all rest)"
  by pat_completeness auto
termination
proof (relation "measure length")
  show "wf (measure length)"
    by simp
next
  fix s :: string and x2 host y port rest
  assume "hostPortRe s = Some x2" and "(host, y) = x2" and "(port, rest) = y"
  then have "host_port_find is_k8s_host_char 0 s = Some (host, port, rest)"
    by (simp add: hostPortRe_def)
  then have "length rest < length s"
    by (rule host_port_find_shorter)
  then show "(rest, s) \<in> measure length"
    by simp
qed

declare hostPortRe_all.simps [simp del]

text \<open>
  \<open>k8sDNSRe = ([a-zA-Z0-9][-a-zA-Z0-9.]*)\.([a-zA-Z0-9][-a-zA-Z0-9]*)\.svc\.cluster\.local\<close>.
  \<open>dns_tail\<close> matches what follows the first group, at the start of a text: a dot, the
  namespace (its longest run, since only a dot may follow it) and the literal suffix; it
  returns the namespace and the text after the match.
\<close>

definition dns_tail :: "string \<Rightarrow> (string \<times> string) option" where
  "dns_tail t =
     (case t of
        d # n # t' \<Rightarrow>
          if d = CHR ''.'' \<and> is_alnum n then
            let ns = n # takeWhile is_label_char t'; u = dropWhile is_label_char t'
            in if HasPrefix u ''.svc.cluster.local'' then Some (ns, drop 18 u) else None
          else None
      | _ \<Rightarrow> None)"

text \<open>
  The first group is greedy: it is tried at its longest and gives back one character at a
  time, down to its first character, until the rest of the pattern matches. The first
  argument of \<open>k8sDNSRe_try\<close> is the candidate for the group, reversed; the second is the text
  after it.
\<close>

fun k8sDNSRe_try :: "string \<Rightarrow> string \<Rightarrow> (string \<times> string \<times> string) option" where
  "k8sDNSRe_try [] rest = None"
| "k8sDNSRe_try (x # g) rest =
     (case dns_tail rest of
        Some (ns, after) \<Rightarrow> Some (rev (x # g), ns, after)
      | None \<Rightarrow> if g = [] then None else k8sDNSRe_try g (x # rest))"

definition k8sDNSRe_at :: "string \<Rightarrow> (string \<times> string \<times> string) option" where
  "k8sDNSRe_at s =
     (case s of
        [] \<Rightarrow> None
      | c # cs \<Rightarrow>
          if \<not> is_alnum c then None
          else k8sDNSRe_try (rev (c # takeWhile is_k8s_host_char cs))
                 (dropWhile is_k8s_host_char cs))"

fun k8sDNSRe :: "string \<Rightarrow> (string \<times> string \<times> string) option" where
  "k8sDNSRe [] = None"
| "k8sDNSRe (c # cs) =
     (case k8sDNSRe_at (c # cs) of
        Some m \<Rightarrow> Some m
      | None \<Rightarrow> k8sDNSRe cs)"

text \<open>
  \<open>extractDepsFromValue\<close>; \<open>u\<close> is the result of \<open>url.Parse(value)\<close>. The three rules are
  tried in the order of the source, and the first two return as soon as they apply.
\<close>

definition k8s_url_schemes :: "string list" where
  "k8s_url_schemes = [''http'', ''https'', ''postgresql'', ''postgres'', ''redis'', ''amqp'',
     ''mongodb'', ''mysql'', ''kafka'']"

definition k8s_url_rule :: "URL option \<Rightarrow> bool" where
  "k8s_url_rule u \<longleftrightarrow>
     (case u of
        None \<Rightarrow> False
      | Some url \<Rightarrow> Host url \<noteq> [] \<and> Scheme url \<in> set k8s_url_schemes)"

definition extractDepsFromValue ::
    "URL option \<Rightarrow> string \<Rightarrow> string \<Rightarrow> string \<Rightarrow> Confidence \<Rightarrow> string \<Rightarrow> NetworkDependency list" where
  "extractDepsFromValue u value source context confidence path =
     (if k8s_url_rule u then
        [\<lparr>Source = source, Target = Hostname (the u),
          Port = (if PortOf (the u) \<noteq> [] then Atoi_value (PortOf (the u)) else 0),
          Protocol = ''TCP'', Description = context @ '': URL '' @ value,
          Confidence = confidence, SourceFile = path\<rparr>]
      else (case k8sDNSRe value of
          Some (svc, ns, after) \<Rightarrow>
            [\<lparr>Source = source, Target = svc @ ''.'' @ ns,
              Port = (case hostPortRe value of
                        Some (host, port, rest) \<Rightarrow> Atoi_value port
                      | None \<Rightarrow> 0),
              Protocol = ''TCP'', Description = context @ '': K8s service DNS '' @ value,
              Confidence = confidence, SourceFile = path\<rparr>]
        | None \<Rightarrow>
            concat (map (\<lambda>(host, port_text).
                let port = Atoi_value port_text
                in if HasPrefix host ''sha'' \<or> port < 1 \<or> port > 65535 then []
                   else [\<lparr>Source = source, Target = host, Port = port, Protocol = ''TCP'',
                     Description = context @ '': host:port '' @ host @ '':'' @ fmt_d port,
                     Confidence = confidence, SourceFile = path\<rparr>])
              (hostPortRe_all value))))"

text \<open>
  The shape of a Kubernetes DNS name as the pattern sees it: a service that starts with a
  letter or digit and goes on with letters, digits, hyphens and dots, and a namespace
  without dots.
\<close>

definition is_dns_service :: "string \<Rightarrow> bool" where
  "is_dns_service svc \<longleftrightarrow> svc \<noteq> [] \<and> is_alnum (hd svc) \<and> list_all is_k8s_host_char (tl svc)"

definition is_dns_namespace :: "string \<Rightarrow> bool" where
  "is_dns_namespace ns \<longleftrightarrow> ns \<noteq> [] \<and> is_alnum (hd ns) \<and> list_all is_label_char (tl ns)"

definition dns_name :: "string \<Rightarrow> string \<Rightarrow> string" where
  "dns_name svc ns = svc @ ''.'' @ ns @ ''.svc.cluster.local''"





text \<open>
  Two values that are not host:port pairs of a network service: an image digest and a pair
  whose number is no port. \<open>url.Parse\<close> reads the text before the colon as a scheme and
  finds no host in either.
\<close>

definition ex_digest :: string where
  "ex_digest = ''sha256:45b23dee08af5e43a7fea6c4cf9c25ccf269ee113168c19722f87876677c5cb2''"

definition ex_digest_url :: "URL option" where
  "ex_digest_url = Some \<lparr>Scheme = ''sha256'', Host = []\<rparr>"

definition ex_big_port :: string where
  "ex_big_port = ''cache:99999''"

definition ex_big_port_url :: "URL option" where
  "ex_big_port_url = Some \<lparr>Scheme = ''cache'', Host = []\<rparr>"

definition ex_boot3_config :: springConfig where
  "ex_boot3_config = \<lparr>Spring_Datasource_URL = [], Spring_Redis_Host = [],
     Spring_Redis_Port = 0, Spring_Data_Redis_Host = ''redis-host'', Spring_Data_Redis_Port = 0,
     Spring_Kafka_BootstrapServers = [], Spring_RabbitMQ_Host = [], Spring_RabbitMQ_Port = 0,
     Server_Port = 0\<rparr>"

section \<open>The policy synthesizer (package renderer)\<close>

text \<open>
  Three functions of the standard library that the renderer calls depend on tables or
  parsers outside this program: \<open>unicode.ToLower\<close> beyond ASCII (in \<open>sanitizeName\<close>),
  \<open>strings.ToUpper\<close> (on the protocol) and \<open>net.ParseIP\<close> (is the target an IP address).
  The renderer takes them as a parameter.
\<close>

record stdlib =
  unicode_ToLower :: "nat \<Rightarrow> nat"
  strings_ToUpper :: "string \<Rightarrow> string"
  net_ParseIP :: "string \<Rightarrow> bool"

text \<open>
  The renderer writes its output with \<open>fmt.Fprintf(&b, format, args...)\<close>. The model keeps
  the calls: the output is the list of the calls in order, each with the format string of
  the source and its arguments, and the text returned by \<open>b.String()\<close> is the concatenation
  of what each call prints.
\<close>

text \<open>
  The formats of the source use the verbs \<open>%s\<close> and \<open>%d\<close> only, and every call gives as
  many arguments as its format has verbs.
\<close>

datatype arg = Str string | Num int

datatype call = Fprintf string "arg list"

fun Sprintf :: "string \<Rightarrow> arg list \<Rightarrow> string" where
  "Sprintf [] args = []"
| "Sprintf [c] args = [c]"
| "Sprintf (c # v # fmt) args =
     (if c = CHR ''%'' \<and> (v = CHR ''s'' \<or> v = CHR ''d'') then
        (case args of
           [] \<Rightarrow> ''%!'' @ [v] @ ''(MISSING)'' @ Sprintf fmt []
         | Str s # rest \<Rightarrow> s @ Sprintf fmt rest
         | Num i # rest \<Rightarrow> fmt_d i @ Sprintf fmt rest)
      else c # Sprintf (v # fmt) args)"

definition printed :: "call \<Rightarrow> string" where
  "printed c = (case c of Fprintf fmt args \<Rightarrow> Sprintf fmt args)"

definition String :: "call list \<Rightarrow> string" where
  "String calls = concat (map printed calls)"

text \<open>The em dash of the comment under the first policy, in UTF-8.\<close>

definition em_dash :: string where
  "em_dash = [CHR 0xE2, CHR 0x80, CHR 0x94]"

text \<open>\<open>dedupeStrings\<close>: the first occurrence of each string, then \<open>sort.Strings\<close>.\<close>

definition dedupe_step :: "(string \<rightharpoonup> bool) \<times> string list \<Rightarrow> string
    \<Rightarrow> (string \<rightharpoonup> bool) \<times> string list" where
  "dedupe_step st s =
     (if \<not> map_get_bool (fst st) s then ((fst st)(s \<mapsto> True), snd st @ [s]) else st)"

definition dedupeStrings :: "string list \<Rightarrow> string list" where
  "dedupeStrings ss =
     (if ss = [] then [] else sort (snd (foldl dedupe_step (Map.empty, []) ss)))"

text \<open>
  \<open>strings.SplitN(target, ".", 3)\<close> on a target that contains a dot: \<open>parts[0]\<close> is the text
  before the first dot and \<open>parts[1]\<close> the text between the first dot and the second, or
  the end.
\<close>

definition not_dot :: "char \<Rightarrow> bool" where
  "not_dot c \<longleftrightarrow> c \<noteq> CHR ''.''"

definition render_selector :: "stdlib \<Rightarrow> string \<Rightarrow> string \<Rightarrow> call list" where
  "render_selector L direction name =
     (if net_ParseIP L name then
        [Fprintf direction [],
         Fprintf ''        - ipBlock:\<newline>'' [],
         Fprintf ''            cidr: %s/32\<newline>'' [Str name]]
      else if CHR ''.'' \<in> set name then
        (let svcName = takeWhile not_dot name;
             namespace = takeWhile not_dot (tl (dropWhile not_dot name))
         in [Fprintf direction [],
             Fprintf ''        - podSelector:\<newline>'' [],
             Fprintf ''            matchLabels:\<newline>'' [],
             Fprintf ''              app: %s\<newline>'' [Str svcName]]
            @ (if namespace \<noteq> [] then
                 [Fprintf ''          namespaceSelector:\<newline>'' [],
                  Fprintf ''            matchLabels:\<newline>'' [],
                  Fprintf ''              kubernetes.io/metadata.name: %s\<newline>'' [Str namespace]]
               else []))
      else
        [Fprintf direction [],
         Fprintf ''        - podSelector:\<newline>'' [],
         Fprintf ''            matchLabels:\<newline>'' [],
         Fprintf ''              app: %s\<newline>'' [Str name]])"

definition renderIngressFrom :: "stdlib \<Rightarrow> string \<Rightarrow> call list" where
  "renderIngressFrom L source = render_selector L ''    - from:\<newline>'' source"

definition renderEgressTo :: "stdlib \<Rightarrow> string \<Rightarrow> call list" where
  "renderEgressTo L target = render_selector L ''    - to:\<newline>'' target"

text \<open>The three calls that print the port and the protocol of a rule.\<close>

definition render_ports :: "stdlib \<Rightarrow> int \<Rightarrow> string \<Rightarrow> call list" where
  "render_ports L port protocol =
     (let proto = (if strings_ToUpper L protocol = [] then ''TCP'' else strings_ToUpper L protocol)
      in [Fprintf ''      ports:\<newline>'' [],
          Fprintf ''        - port: %d\<newline>'' [Num port],
          Fprintf ''          protocol: %s\<newline>'' [Str proto]])"

text \<open>The DNS egress rule, the same eight calls in both renderings.\<close>

definition dns_egress :: "call list" where
  "dns_egress =
     [Fprintf ''    - to:\<newline>'' [],
      Fprintf ''        - namespaceSelector:\<newline>'' [],
      Fprintf ''            matchLabels:\<newline>'' [],
      Fprintf ''              kubernetes.io/metadata.name: kube-system\<newline>'' [],
      Fprintf ''      ports:\<newline>'' [],
      Fprintf ''        - port: 53\<newline>'' [],
      Fprintf ''          protocol: UDP\<newline>'' [],
      Fprintf ''        - port: 53\<newline>'' [],
      Fprintf ''          protocol: TCP\<newline>'' []]"

text \<open>
  The first loop of \<open>NetworkPolicy\<close>: the rules (one for each target, port and protocol, in
  the order of the listing) and the targets of the facts that have no port.
\<close>

record egressRule =
  target :: string
  port :: int
  protocol :: string

record rule_state =
  rules :: "egressRule list"
  seen_rules :: "string \<rightharpoonup> bool"
  skipped :: "string list"

definition rule_step :: "rule_state \<Rightarrow> NetworkDependency \<Rightarrow> rule_state" where
  "rule_step st dep =
     (if Port dep \<le> 0 then st\<lparr>skipped := skipped st @ [Target dep]\<rparr>
      else let key = Target dep @ '':'' @ fmt_d (Port dep) @ '':'' @ Protocol dep
        in if \<not> map_get_bool (seen_rules st) key then
             st\<lparr>seen_rules := (seen_rules st)(key \<mapsto> True),
                rules := rules st @ [\<lparr>target = Target dep, port = Port dep,
                  protocol = Protocol dep\<rparr>]\<rparr>
           else st)"

definition NetworkPolicy :: "stdlib \<Rightarrow> DependencySet \<Rightarrow> call list" where
  "NetworkPolicy L ds =
     (let listing = Dependencies ds
      in if listing = [] then []
         else let st = foldl rule_step \<lparr>rules = [], seen_rules = Map.empty, skipped = []\<rparr> listing;
                  skipped_targets = dedupeStrings (skipped st);
                  svcName = sanitizeName (unicode_ToLower L) (ServiceName ds)
           in [Fprintf ''# Review: verify podSelector labels match your deployment\<newline>'' [],
               Fprintf ''apiVersion: networking.k8s.io/v1\<newline>'' [],
               Fprintf ''kind: NetworkPolicy\<newline>'' [],
               Fprintf ''metadata:\<newline>'' [],
               Fprintf ''  name: %s-default-deny\<newline>'' [Str svcName],
               Fprintf ''  labels:\<newline>'' [],
               Fprintf ''    generated-by: segspec\<newline>'' [],
               Fprintf ''spec:\<newline>'' [],
               Fprintf ''  podSelector:\<newline>'' [],
               Fprintf ''    matchLabels:\<newline>'' [],
               Fprintf ''      app: %s\<newline>'' [Str svcName],
               Fprintf ''  policyTypes:\<newline>'' [],
               Fprintf ''    - Ingress\<newline>'' [],
               Fprintf ''    - Egress\<newline>'' [],
               Fprintf (''# Default deny policy '' @ em_dash
                 @ '' blocks all traffic not explicitly allowed above\<newline>'') [],
               Fprintf ''---\<newline>'' [],
               Fprintf ''apiVersion: networking.k8s.io/v1\<newline>'' [],
               Fprintf ''kind: NetworkPolicy\<newline>'' [],
               Fprintf ''metadata:\<newline>'' [],
               Fprintf ''  name: %s-egress\<newline>'' [Str svcName],
               Fprintf ''  labels:\<newline>'' [],
               Fprintf ''    generated-by: segspec\<newline>'' [],
               Fprintf ''spec:\<newline>'' [],
               Fprintf ''  podSelector:\<newline>'' [],
               Fprintf ''    matchLabels:\<newline>'' [],
               Fprintf ''      app: %s\<newline>'' [Str svcName],
               Fprintf ''  policyTypes:\<newline>'' [],
               Fprintf ''    - Egress\<newline>'' [],
               Fprintf ''  egress:\<newline>'' []]
              @ concat (map (\<lambda>rule. renderEgressTo L (target rule)
                          @ render_ports L (port rule) (protocol rule)) (rules st))
              @ dns_egress
              @ (if skipped_targets \<noteq> [] then
                   [Fprintf ''# Skipped (no port): %s\<newline>'' [Str (Join skipped_targets '', '')]]
                 else []))"

text \<open>
  \<open>PerServiceNetworkPolicy\<close>. The services are the non-empty sources and targets of the
  listing; the keys of the map \<open>allServices\<close> are collected and sorted by \<open>sort.Strings\<close>.
\<close>

definition add_service :: "string list \<Rightarrow> string \<Rightarrow> string list" where
  "add_service names s = (if s = [] \<or> s \<in> set names then names else names @ [s])"

definition serviceList :: "NetworkDependency list \<Rightarrow> string list" where
  "serviceList listing =
     sort (foldl (\<lambda>names dep. add_service (add_service names (Source dep)) (Target dep))
             [] listing)"

definition ingress_calls :: "stdlib \<Rightarrow> NetworkDependency \<Rightarrow> call list" where
  "ingress_calls L dep =
     (if Source dep = [] then []
      else renderIngressFrom L (Source dep)
           @ (if Port dep > 0 then render_ports L (Port dep) (Protocol dep) else []))"

definition egress_calls :: "stdlib \<Rightarrow> NetworkDependency \<Rightarrow> call list" where
  "egress_calls L dep =
     (if Port dep \<le> 0 then []
      else renderEgressTo L (Target dep) @ render_ports L (Port dep) (Protocol dep))"

text \<open>The policy of one service: the body of the loop over \<open>serviceList\<close>.\<close>

definition service_policy :: "stdlib \<Rightarrow> DependencySet \<Rightarrow> string \<Rightarrow> call list" where
  "service_policy L ds svc =
     (let svcName = sanitizeName (unicode_ToLower L) svc;
          egress = EgressFor ds svc;
          ingress = IngressFor ds svc
      in [Fprintf ''apiVersion: networking.k8s.io/v1\<newline>'' [],
          Fprintf ''kind: NetworkPolicy\<newline>'' [],
          Fprintf ''metadata:\<newline>'' [],
          Fprintf ''  name: %s-netpol\<newline>'' [Str svcName],
          Fprintf ''  labels:\<newline>'' [],
          Fprintf ''    generated-by: segspec\<newline>'' [],
          Fprintf ''spec:\<newline>'' [],
          Fprintf ''  podSelector:\<newline>'' [],
          Fprintf ''    matchLabels:\<newline>'' [],
          Fprintf ''      app: %s\<newline>'' [Str svcName],
          Fprintf ''  policyTypes:\<newline>'' [],
          Fprintf ''    - Ingress\<newline>'' [],
          Fprintf ''    - Egress\<newline>'' []]
         @ (if ingress \<noteq> [] then
              Fprintf ''  ingress:\<newline>'' [] # concat (map (ingress_calls L) ingress)
            else [])
         @ (if egress \<noteq> [] then
              Fprintf ''  egress:\<newline>'' [] # concat (map (egress_calls L) egress) @ dns_egress
            else []))"

fun policies :: "stdlib \<Rightarrow> DependencySet \<Rightarrow> bool \<Rightarrow> string list \<Rightarrow> call list" where
  "policies L ds first [] = []"
| "policies L ds first (svc # svcs) =
     (if first then [] else [Fprintf ''---\<newline>'' []])
     @ service_policy L ds svc @ policies L ds False svcs"

definition PerServiceNetworkPolicy :: "stdlib \<Rightarrow> DependencySet \<Rightarrow> call list" where
  "PerServiceNetworkPolicy L ds =
     (let listing = Dependencies ds
      in if listing = [] then [] else policies L ds True (serviceList listing))"

text \<open>The numbers that the calls of \<open>- port: %d\<close> print, in order.\<close>

fun port_lines :: "call list \<Rightarrow> int list" where
  "port_lines [] = []"
| "port_lines (Fprintf fmt args # cs) =
     (if fmt = ''        - port: %d\<newline>'' then
        (case args of [Num p] \<Rightarrow> [p] | _ \<Rightarrow> []) @ port_lines cs
      else port_lines cs)"

text \<open>
  An instance of the library for examples whose names are ASCII and are not IP addresses:
  there the case tables are not consulted beyond \<open>a\<close>..\<open>z\<close> and \<open>net.ParseIP\<close> returns
  \<open>nil\<close>.
\<close>

definition ascii_upper :: "char \<Rightarrow> char" where
  "ascii_upper c = (if CHR ''a'' \<le> c \<and> c \<le> CHR ''z'' then char_of (of_char c - 32 :: nat) else c)"

definition ex_lib :: stdlib where
  "ex_lib = \<lparr>unicode_ToLower = (\<lambda>r. r), strings_ToUpper = map ascii_upper,
     net_ParseIP = (\<lambda>s. False)\<rparr>"

text \<open>
  A Compose file in which \<open>web\<close> depends on \<open>db\<close> and the image of \<open>db\<close> is not a
  well-known one gives this fact, with no port.
\<close>

definition ex_depends_on :: NetworkDependency where
  "ex_depends_on = \<lparr>Source = ''web'', Target = ''db'', Port = 0, Protocol = ''TCP'',
     Description = ''depends_on'', Confidence = Medium, SourceFile = ''docker-compose.yml''\<rparr>"

definition ex_exposed :: NetworkDependency where
  "ex_exposed = \<lparr>Source = ''web'', Target = ''api'', Port = 8080, Protocol = ''tcp'',
     Description = ''API'', Confidence = High, SourceFile = ''docker-compose.yml''\<rparr>"

text \<open>The line that names the namespace of the DNS egress rule.\<close>

definition kube_system_line :: call where
  "kube_system_line = Fprintf ''              kubernetes.io/metadata.name: kube-system\<newline>'' []"

text \<open>The line that opens the egress section of a policy.\<close>

definition egress_line :: call where
  "egress_line = Fprintf ''  egress:\<newline>'' []"

definition ex_compose_set :: DependencySet where
  "ex_compose_set = Add (Add (NewDependencySet ''My App'') ex_depends_on) ex_exposed"

definition ex_depends_on_set :: DependencySet where
  "ex_depends_on_set = Add (NewDependencySet ''app'') ex_depends_on"

section \<open>The dependency model on a store of arrays\<close>

text \<open>
  A Go slice is a header (pointer into a backing array, length, capacity); two slices
  may share an array. The store is the list of the arrays allocated so far: the address
  of an array is its index, and allocation appends, so a new address is never one in use.
  A cell that was never assigned holds the zero value of the struct (all strings empty,
  port 0); its confidence is the empty string, which is none of the three constants, so
  the zero value is \<open>None\<close> and an assigned fact \<open>d\<close> is \<open>Some d\<close>.
\<close>

type_synonym cell = "NetworkDependency option"

type_synonym store = "cell list list"

record slice =
  sl_array :: "nat option"
  sl_off :: nat
  sl_len :: nat
  sl_cap :: nat

text \<open>\<open>var result []NetworkDependency\<close>: the nil slice.\<close>

definition nil_slice :: slice where
  "nil_slice = \<lparr>sl_array = None, sl_off = 0, sl_len = 0, sl_cap = 0\<rparr>"

text \<open>The fields that the code reads, on a cell.\<close>

definition cell_Source :: "cell \<Rightarrow> string" where
  "cell_Source c = (case c of None \<Rightarrow> [] | Some d \<Rightarrow> Source d)"

definition cell_Target :: "cell \<Rightarrow> string" where
  "cell_Target c = (case c of None \<Rightarrow> [] | Some d \<Rightarrow> Target d)"

text \<open>\<open>Key\<close> of the zero value: \<open>fmt.Sprintf("%s->%s:%d/%s", "", "", 0, "")\<close>.\<close>

definition cell_Key :: "cell \<Rightarrow> string" where
  "cell_Key c = (case c of None \<Rightarrow> ''->:0/'' | Some d \<Rightarrow> Key d)"

text \<open>The elements \<open>s[0]\<close>, ..., \<open>s[len(s)-1]\<close> of a slice, and \<open>s[i]\<close>.\<close>

definition cells :: "store \<Rightarrow> slice \<Rightarrow> cell list" where
  "cells h s =
     (case sl_array s of
        None \<Rightarrow> []
      | Some a \<Rightarrow> take (sl_len s) (drop (sl_off s) (h ! a)))"

definition index_slice :: "store \<Rightarrow> slice \<Rightarrow> nat \<Rightarrow> cell" where
  "index_slice h s i = cells h s ! i"

text \<open>A slice of the store: its array is allocated and holds its capacity.\<close>

definition valid_slice :: "store \<Rightarrow> slice \<Rightarrow> bool" where
  "valid_slice h s =
     (case sl_array s of
        None \<Rightarrow> sl_len s = 0 \<and> sl_cap s = 0
      | Some a \<Rightarrow> a < length h \<and> sl_off s + sl_cap s \<le> length (h ! a) \<and> sl_len s \<le> sl_cap s)"

text \<open>\<open>make([]NetworkDependency, n)\<close>: a new array of \<open>n\<close> zero values.\<close>

definition make_slice :: "store \<Rightarrow> nat \<Rightarrow> slice \<times> store" where
  "make_slice h n =
     (\<lparr>sl_array = Some (length h), sl_off = 0, sl_len = n, sl_cap = n\<rparr>, h @ [replicate n None])"

text \<open>Overwriting the first \<open>length xs\<close> elements of a slice, in its array.\<close>

definition write_cells :: "store \<Rightarrow> slice \<Rightarrow> cell list \<Rightarrow> store" where
  "write_cells h s xs =
     (case sl_array s of
        None \<Rightarrow> h
      | Some a \<Rightarrow>
          h[a := take (sl_off s) (h ! a) @ xs @ drop (sl_off s + length xs) (h ! a)])"

text \<open>\<open>copy(dst, src)\<close> copies \<open>min(len(dst), len(src))\<close> elements.\<close>

definition copy_slice :: "store \<Rightarrow> slice \<Rightarrow> slice \<Rightarrow> store" where
  "copy_slice h dst src =
     write_cells h dst (take (min (sl_len dst) (sl_len src)) (cells h src))"

text \<open>
  \<open>sort.Slice(s, func(i, j int) bool { return s[i].Key() < s[j].Key() })\<close> reorders the
  elements of \<open>s\<close> in its array.
\<close>

definition sort_Slice :: "store \<Rightarrow> slice \<Rightarrow> store" where
  "sort_Slice h s = write_cells h s (sort_key cell_Key (cells h s))"

text \<open>
  \<open>append(s, v)\<close> writes into the array of \<open>s\<close> when the capacity has room, and otherwise
  copies the elements into a new array. The capacity of the new array is chosen by the
  runtime (\<open>growslice\<close>, not in the repository): it is the argument \<open>grow\<close>, applied to the
  old capacity, and at least the length needed.
\<close>

definition append_slice :: "(nat \<Rightarrow> nat) \<Rightarrow> store \<Rightarrow> slice \<Rightarrow> cell \<Rightarrow> slice \<times> store" where
  "append_slice grow h s v =
     (case (sl_array s, sl_len s < sl_cap s) of
        (Some a, True) \<Rightarrow>
          (s\<lparr>sl_len := sl_len s + 1\<rparr>, h[a := (h ! a)[sl_off s + sl_len s := v]])
      | _ \<Rightarrow>
          (let n = max (grow (sl_cap s)) (sl_len s + 1)
           in (\<lparr>sl_array = Some (length h), sl_off = 0, sl_len = sl_len s + 1, sl_cap = n\<rparr>,
               h @ [cells h s @ [v] @ replicate (n - (sl_len s + 1)) None])))"

text \<open>The set: \<open>deps\<close> is a slice of the store.\<close>

record DependencySet_s =
  ServiceName_s :: string
  deps_s :: slice
  seen_s :: "string \<rightharpoonup> bool"

definition NewDependencySet_s :: "store \<Rightarrow> string \<Rightarrow> DependencySet_s \<times> store" where
  "NewDependencySet_s h name =
     (let (d, h1) = make_slice h 0
      in (\<lparr>ServiceName_s = name, deps_s = d, seen_s = Map.empty\<rparr>, h1))"

definition Add_s ::
  "(nat \<Rightarrow> nat) \<Rightarrow> store \<Rightarrow> DependencySet_s \<Rightarrow> NetworkDependency \<Rightarrow> DependencySet_s \<times> store" where
  "Add_s grow h ds dep =
     (let key = Key dep in
      if map_get_bool (seen_s ds) key then (ds, h)
      else
        (let (d, h1) = append_slice grow h (deps_s ds) (Some dep)
         in (ds\<lparr>seen_s := (seen_s ds)(key \<mapsto> True), deps_s := d\<rparr>, h1)))"

definition Len_s :: "DependencySet_s \<Rightarrow> int" where
  "Len_s ds = int (sl_len (deps_s ds))"

definition Dependencies_s :: "store \<Rightarrow> DependencySet_s \<Rightarrow> slice \<times> store" where
  "Dependencies_s h ds =
     (let (sorted, h1) = make_slice h (sl_len (deps_s ds));
          h2 = copy_slice h1 sorted (deps_s ds)
      in (sorted, sort_Slice h2 sorted))"

text \<open>
  \<open>for _, dep := range ds.deps { if ... { result = append(result, dep) } }\<close>: the header
  of \<open>ds.deps\<close> is read once, each element when its turn comes.
\<close>

definition collect_step ::
  "(nat \<Rightarrow> nat) \<Rightarrow> (cell \<Rightarrow> bool) \<Rightarrow> slice \<Rightarrow> slice \<times> store \<Rightarrow> nat \<Rightarrow> slice \<times> store" where
  "collect_step grow keep src st i =
     (let dep = index_slice (snd st) src i
      in if keep dep then append_slice grow (snd st) (fst st) dep else st)"

definition collect ::
  "(nat \<Rightarrow> nat) \<Rightarrow> (cell \<Rightarrow> bool) \<Rightarrow> store \<Rightarrow> slice \<Rightarrow> slice \<times> store" where
  "collect grow keep h src =
     (let (result, h1) = foldl (collect_step grow keep src) (nil_slice, h) [0..<sl_len src]
      in (result, sort_Slice h1 result))"

definition IngressFor_s ::
  "(nat \<Rightarrow> nat) \<Rightarrow> store \<Rightarrow> DependencySet_s \<Rightarrow> string \<Rightarrow> slice \<times> store" where
  "IngressFor_s grow h ds service =
     collect grow (\<lambda>dep. cell_Target dep = service) h (deps_s ds)"

definition EgressFor_s ::
  "(nat \<Rightarrow> nat) \<Rightarrow> store \<Rightarrow> DependencySet_s \<Rightarrow> string \<Rightarrow> slice \<times> store" where
  "EgressFor_s grow h ds service =
     collect grow (\<lambda>dep. cell_Source dep = service) h (deps_s ds)"

text \<open>
  What a caller can do with a slice it was given: assign an element (\<open>s[i] = v\<close>, which
  panics when \<open>i\<close> is not below the length), append (\<open>s = append(s, v)\<close>) and reslice
  (\<open>s = s[lo:hi]\<close>, which panics unless \<open>lo \<le> hi \<le> cap(s)\<close>). A panic is \<open>None\<close>.
\<close>

datatype mutation = Assign nat cell | Append cell | Reslice nat nat

fun mutate :: "(nat \<Rightarrow> nat) \<Rightarrow> mutation \<Rightarrow> slice \<times> store \<Rightarrow> (slice \<times> store) option" where
  "mutate grow (Assign i v) (s, h) =
     (case sl_array s of
        Some a \<Rightarrow>
          if i < sl_len s then Some (s, h[a := (h ! a)[sl_off s + i := v]]) else None
      | None \<Rightarrow> None)"
| "mutate grow (Append v) (s, h) = Some (append_slice grow h s v)"
| "mutate grow (Reslice lo hi) (s, h) =
     (if lo \<le> hi \<and> hi \<le> sl_cap s then
        Some (s\<lparr>sl_off := sl_off s + lo, sl_len := hi - lo, sl_cap := sl_cap s - lo\<rparr>, h)
      else None)"

fun mutations ::
  "(nat \<Rightarrow> nat) \<Rightarrow> mutation list \<Rightarrow> slice \<times> store \<Rightarrow> (slice \<times> store) option" where
  "mutations grow [] st = Some st"
| "mutations grow (m # ms) st =
     (case mutate grow m st of None \<Rightarrow> None | Some st1 \<Rightarrow> mutations grow ms st1)"

text \<open>The elements of a returned slice, in the store it was returned with.\<close>

definition contents :: "slice \<times> store \<Rightarrow> cell list" where
  "contents r = cells (snd r) (fst r)"

text \<open>
  A store with one array of capacity 4 that holds two facts, and the set whose \<open>deps\<close>
  is the slice of these two.
\<close>

definition ex_store :: store where
  "ex_store = [[Some ex_zookeeper, Some ex_kafka, None, None]]"

definition ex_set_s :: DependencySet_s where
  "ex_set_s = \<lparr>ServiceName_s = ''app'',
     deps_s = \<lparr>sl_array = Some 0, sl_off = 0, sl_len = 2, sl_cap = 4\<rparr>,
     seen_s = [Key ex_zookeeper \<mapsto> True, Key ex_kafka \<mapsto> True]\<rparr>"

text \<open>
  Two notions for the frame properties: a slice whose array, if it has one, was allocated
  at address \<open>n\<close> or later, and a store that still has the first \<open>n\<close> arrays of another.
\<close>

definition fresh_from :: "nat \<Rightarrow> slice \<Rightarrow> bool" where
  "fresh_from n s = (case sl_array s of None \<Rightarrow> True | Some a \<Rightarrow> n \<le> a)"

definition keeps :: "nat \<Rightarrow> store \<Rightarrow> store \<Rightarrow> bool" where
  "keeps n h h' = (n \<le> length h' \<and> take n h' = take n h)"

section \<open>Properties of the dependency set\<close>

lemma Key_cong:
  "Source a = Source b \<Longrightarrow> Target a = Target b \<Longrightarrow> Port a = Port b \<Longrightarrow>
   Protocol a = Protocol b \<Longrightarrow> Key a = Key b"
  by (simp add: Key_def)

lemma seen_after_Add: "map_get_bool (seen (Add ds dep)) (Key dep)"
  by (simp add: Add_def Let_def map_get_bool_def)

lemma Add_seen_again: "map_get_bool (seen ds) (Key dep) \<Longrightarrow> Add ds dep = ds"
  by (simp add: Add_def)



lemma deps_Add_Add_New:
  "Key a \<noteq> Key b \<Longrightarrow> deps (Add (Add (NewDependencySet name) a) b) = [a, b]"
  by (simp add: Add_def NewDependencySet_def Let_def map_get_bool_def)


text \<open>
  C1. \<open>Add\<close> is idempotent and first-write-wins: when two facts agree on source, target,
  port and protocol, adding the second after the first changes nothing, neither the number
  of stored facts nor the facts themselves, whatever the description, confidence and source
  file of the second; starting from the empty set, the fact stored is the first one.
\<close>

theorem Add_first_write_wins:
  assumes "Source d2 = Source d1" and "Target d2 = Target d1"
    and "Port d2 = Port d1" and "Protocol d2 = Protocol d1"
  shows "Add (Add ds d1) d2 = Add ds d1
    \<and> Len (Add (Add ds d1) d2) = Len (Add ds d1)
    \<and> deps (Add (Add ds d1) d2) = deps (Add ds d1)
    \<and> deps (Add (Add (NewDependencySet name) d1) d2) = [d1]"
proof -
  have k: "Key d2 = Key d1"
    using assms by (rule Key_cong)
  have "map_get_bool (seen (Add ds' d1)) (Key d2)" for ds'
    unfolding k by (rule seen_after_Add)
  then have e: "Add (Add ds' d1) d2 = Add ds' d1" for ds'
    by (rule Add_seen_again)
  have "deps (Add (NewDependencySet name) d1) = [d1]"
    by (simp add: Add_def NewDependencySet_def Let_def map_get_bool_def)
  with e show ?thesis by simp
qed

theorem Add_first_write_wins_witness:
  "Source ex_redis_again = Source ex_redis \<and> Target ex_redis_again = Target ex_redis
   \<and> Port ex_redis_again = Port ex_redis \<and> Protocol ex_redis_again = Protocol ex_redis
   \<and> Description ex_redis_again \<noteq> Description ex_redis
   \<and> Confidence ex_redis_again \<noteq> Confidence ex_redis
   \<and> SourceFile ex_redis_again \<noteq> SourceFile ex_redis
   \<and> deps (Add (Add (NewDependencySet ''app'') ex_redis) ex_redis_again) = [ex_redis]"
proof -
  have h: "Source ex_redis_again = Source ex_redis" "Target ex_redis_again = Target ex_redis"
    "Port ex_redis_again = Port ex_redis" "Protocol ex_redis_again = Protocol ex_redis"
    by (simp_all add: ex_redis_def ex_redis_again_def)
  have "deps (Add (Add (NewDependencySet ''app'') ex_redis) ex_redis_again) = [ex_redis]"
    using Add_first_write_wins [OF h, of "NewDependencySet ''app''" "''app''"] by blast
  with h show ?thesis
    by (simp add: ex_redis_def ex_redis_again_def)
qed



section \<open>Properties of name sanitization\<close>

lemma TrimRight_prefix: "prefix (TrimRight s c) s"
proof -
  have "rev s = takeWhile (\<lambda>x. x = c) (rev s) @ dropWhile (\<lambda>x. x = c) (rev s)"
    by simp
  then have "s = rev (dropWhile (\<lambda>x. x = c) (rev s)) @ rev (takeWhile (\<lambda>x. x = c) (rev s))"
    by (metis rev_append rev_rev_ident)
  then show ?thesis
    unfolding TrimRight_def by (metis prefixI)
qed

lemma TrimRight_last: "TrimRight s c \<noteq> [] \<Longrightarrow> last (TrimRight s c) \<noteq> c"
  unfolding TrimRight_def using hd_dropWhile [of "\<lambda>x. x = c" "rev s"]
  by (simp add: last_rev)

lemma TrimLeft_hd: "TrimLeft s c \<noteq> [] \<Longrightarrow> hd (TrimLeft s c) \<noteq> c"
  unfolding TrimLeft_def using hd_dropWhile [of "\<lambda>x. x = c" s] by simp

lemma TrimLeft_subset: "set (TrimLeft s c) \<subseteq> set s"
  unfolding TrimLeft_def by (auto dest: set_dropWhileD)

lemma prefix_hd: "prefix xs ys \<Longrightarrow> xs \<noteq> [] \<Longrightarrow> hd xs = hd ys"
  by (auto simp: prefix_def)

lemma name_char_sanitize_rune: "name_char (sanitize_rune r)"
  by (auto simp: name_char_def sanitize_rune_def is_digit_def less_eq_char_def char_of_eq_iff)

lemma sanitizeName_unfold:
  "sanitizeName lower s =
     (let t = TrimRight (take 63 (Trim (map (\<lambda>r. sanitize_rune (ToLower_rune lower r)) (runes s))
                (CHR ''-''))) (CHR ''-'')
      in if t = [] then ''unknown'' else t)"
  by (simp add: sanitizeName_def Let_def comp_def)

lemma sanitizeName_valid:
  "sanitizeName lower s \<noteq> [] \<and> length (sanitizeName lower s) \<le> 63
   \<and> list_all name_char (sanitizeName lower s)
   \<and> hd (sanitizeName lower s) \<noteq> CHR ''-'' \<and> last (sanitizeName lower s) \<noteq> CHR ''-''"
proof -
  let ?m = "map (\<lambda>r. sanitize_rune (ToLower_rune lower r)) (runes s)"
  let ?l = "TrimLeft ?m (CHR ''-'')"
  let ?u = "take 63 (Trim ?m (CHR ''-''))"
  let ?t = "TrimRight ?u (CHR ''-'')"
  have eq: "sanitizeName lower s = (if ?t = [] then ''unknown'' else ?t)"
    by (simp add: sanitizeName_unfold Let_def)
  show ?thesis
  proof (cases "?t = []")
    case True
    then show ?thesis
      unfolding eq by (simp add: name_char_def is_digit_def)
  next
    case False
    have p1: "prefix ?t ?u" by (rule TrimRight_prefix)
    have p2: "prefix ?u (Trim ?m (CHR ''-''))" by (rule take_is_prefix)
    have p3: "prefix (Trim ?m (CHR ''-'')) ?l"
      unfolding Trim_def by (rule TrimRight_prefix)
    have p: "prefix ?t ?l"
      using p1 p2 p3 by (meson prefix_order.trans)
    then have ne: "?l \<noteq> []"
      using False by auto
    have "length ?t \<le> length ?u"
      using p1 by (rule prefix_length_le)
    then have len: "length ?t \<le> 63"
      by simp
    have "set ?t \<subseteq> set ?l"
      using p by (rule set_mono_prefix)
    also have "\<dots> \<subseteq> set ?m"
      by (rule TrimLeft_subset)
    finally have "\<forall>c \<in> set ?t. name_char c"
      by (auto simp: name_char_sanitize_rune)
    then have chars: "list_all name_char ?t"
      by (simp add: list_all_iff)
    have "hd ?t = hd ?l"
      using p False by (rule prefix_hd)
    then have h: "hd ?t \<noteq> CHR ''-''"
      using TrimLeft_hd [OF ne] by simp
    have l: "last ?t \<noteq> CHR ''-''"
      using False by (rule TrimRight_last)
    show ?thesis
      unfolding eq using False len chars h l by simp
  qed
qed

text \<open>
  C9. For every input string (and whatever the Unicode tables say beyond ASCII),
  \<open>sanitizeName\<close> lower-cases the string, replaces every character outside \<open>[a-z0-9-]\<close> by
  \<open>-\<close>, trims leading and trailing \<open>-\<close>, keeps at most 63 characters, trims trailing
  \<open>-\<close> again, and returns \<open>unknown\<close> when nothing is left. The result is therefore never
  empty, at most 63 characters long, made of \<open>[a-z0-9-]\<close> only, and neither starts nor ends
  with \<open>-\<close>. \<open>My App_v2.0\<close> gives \<open>my-app-v2-0\<close>, and 62 \<open>a\<close>s followed by \<open>-b\<close> give the
  62 \<open>a\<close>s.
\<close>

theorem sanitizeName_correct:
  "sanitizeName lower s =
     (let t = TrimRight (take 63 (Trim (map (\<lambda>r. sanitize_rune (ToLower_rune lower r)) (runes s))
                (CHR ''-''))) (CHR ''-'')
      in if t = [] then ''unknown'' else t)
   \<and> sanitizeName lower s \<noteq> [] \<and> length (sanitizeName lower s) \<le> 63
   \<and> list_all name_char (sanitizeName lower s)
   \<and> hd (sanitizeName lower s) \<noteq> CHR ''-'' \<and> last (sanitizeName lower s) \<noteq> CHR ''-''
   \<and> sanitizeName lower ''My App_v2.0'' = ''my-app-v2-0''
   \<and> sanitizeName lower (replicate 62 (CHR ''a'') @ ''-b'') = replicate 62 (CHR ''a'')"
proof -
  have "sanitizeName lower ''My App_v2.0'' = ''my-app-v2-0''"
    by (simp add: sanitizeName_def runes_def ToLower_rune_def sanitize_rune_def Trim_def
        TrimLeft_def TrimRight_def char_of_eq_iff)
  moreover have "sanitizeName lower (replicate 62 (CHR ''a'') @ ''-b'') = replicate 62 (CHR ''a'')"
    by code_simp
  ultimately show ?thesis
    using sanitizeName_unfold [of lower s] sanitizeName_valid [of lower s] by simp
qed

section \<open>Properties of the JDBC recognizer\<close>

lemma takeWhile_run:
  "list_all P xs \<Longrightarrow> ys = [] \<or> \<not> P (hd ys) \<Longrightarrow> takeWhile P (xs @ ys) = xs"
  by (cases ys) (auto simp: list_all_iff takeWhile_append)

lemma dropWhile_run:
  "list_all P xs \<Longrightarrow> ys = [] \<or> \<not> P (hd ys) \<Longrightarrow> dropWhile P (xs @ ys) = ys"
  by (cases ys) (auto simp: list_all_iff dropWhile_append)

lemma jdbcPattern_shape:
  assumes "drv \<noteq> []" "list_all is_word drv" "host \<noteq> []" "list_all is_jdbc_host_char host"
    and "rest = [] \<or> \<not> is_jdbc_host_char (hd rest)"
  shows "jdbcPattern (''jdbc:'' @ drv @ ''://'' @ host @ rest) =
     Some (drv, host, (case rest of [] \<Rightarrow> [] | c # r \<Rightarrow> if c = CHR '':'' then takeWhile is_digit r else []))"
proof -
  have w: "\<not> is_word (hd (''://'' @ host @ rest))"
    by (simp add: is_word_def is_alnum_def is_digit_def)
  have 1: "takeWhile is_word (drv @ ''://'' @ host @ rest) = drv"
    using assms(2) w by (intro takeWhile_run) simp_all
  have 2: "dropWhile is_word (drv @ ''://'' @ host @ rest) = ''://'' @ host @ rest"
    using assms(2) w by (intro dropWhile_run) simp_all
  have 3: "takeWhile is_jdbc_host_char (host @ rest) = host"
    using assms(4,5) by (intro takeWhile_run)
  have 4: "dropWhile is_jdbc_host_char (host @ rest) = rest"
    using assms(4,5) by (intro dropWhile_run)
  have t1: "takeWhile is_word (drv @ CHR '':'' # CHR ''/'' # CHR ''/'' # host @ rest) = drv"
    using 1 by simp
  have t2: "dropWhile is_word (drv @ CHR '':'' # CHR ''/'' # CHR ''/'' # host @ rest)
      = CHR '':'' # CHR ''/'' # CHR ''/'' # host @ rest"
    using 2 by simp
  show ?thesis
    using assms(1,3) by (simp add: jdbcPattern_def HasPrefix_def t1 t2 3 4 Let_def)
qed

lemma jdbcSkipDrivers_iff:
  "map_get_bool jdbcSkipDrivers d \<longleftrightarrow> d = ''h2'' \<or> d = ''derby''"
  by (simp add: jdbcSkipDrivers_def map_get_bool_def)

lemma jdbcDefaultPorts_eq:
  "jdbcDefaultPorts d =
     (if d = ''postgresql'' \<or> d = ''postgres'' then Some 5432
      else if d = ''mysql'' \<or> d = ''mariadb'' then Some 3306
      else if d = ''oracle'' then Some 1521
      else if d = ''sqlserver'' \<or> d = ''mssql'' then Some 1433
      else None)"
  by (simp add: jdbcDefaultPorts_def)

lemma jdbc_no_port_group:
  "jdbc_no_port rest \<Longrightarrow>
     (rest = [] \<or> \<not> is_jdbc_host_char (hd rest))
     \<and> (case rest of [] \<Rightarrow> [] | c # r \<Rightarrow> if c = CHR '':'' then takeWhile is_digit r else []) = []"
  by (cases rest; cases "tl rest")
    (auto simp: jdbc_no_port_def is_jdbc_host_char_def)

lemma parseJDBC_explicit_port:
  assumes "drv \<noteq> []" "list_all is_word drv" "host \<noteq> []" "list_all is_jdbc_host_char host"
    and "digits \<noteq> []" "list_all is_digit digits" "rest = [] \<or> \<not> is_digit (hd rest)"
    and "map ascii_lower drv \<notin> {''h2'', ''derby''}"
  shows "\<exists>d. parseJDBC (''jdbc:'' @ drv @ ''://'' @ host @ '':'' @ digits @ rest) path = Some d
     \<and> Target d = host \<and> Port d = Atoi_value digits \<and> Confidence d = High"
proof -
  have "takeWhile is_digit (digits @ rest) = digits"
    using assms(6,7) by (rule takeWhile_run)
  then have "jdbcPattern (''jdbc:'' @ drv @ ''://'' @ host @ ('':'' @ digits @ rest))
      = Some (drv, host, digits)"
    using assms(1-4) by (subst jdbcPattern_shape) (simp_all add: is_jdbc_host_char_def)
  then show ?thesis
    using assms(5,8) by (simp add: parseJDBC_def jdbcSkipDrivers_iff Let_def)
qed

lemma parseJDBC_no_port:
  assumes "drv \<noteq> []" "list_all is_word drv" "host \<noteq> []" "list_all is_jdbc_host_char host"
    and "jdbc_no_port rest" and "map ascii_lower drv \<notin> {''h2'', ''derby''}"
  shows "parseJDBC (''jdbc:'' @ drv @ ''://'' @ host @ rest) path =
     (case jdbcDefaultPorts (map ascii_lower drv) of
        None \<Rightarrow> None
      | Some p \<Rightarrow> Some \<lparr>Source = [], Target = host, Port = p, Protocol = ''TCP'',
          Description = (case jdbcDescriptions (map ascii_lower drv) of Some d \<Rightarrow> d
             | None \<Rightarrow> map ascii_lower drv),
          Confidence = Medium, SourceFile = path\<rparr>)"
proof -
  note g = jdbc_no_port_group [OF assms(5)]
  have "jdbcPattern (''jdbc:'' @ drv @ ''://'' @ host @ rest) = Some (drv, host, [])"
    using assms(1-4) g by (subst jdbcPattern_shape) simp_all
  then show ?thesis
    using assms(6) by (simp add: parseJDBC_def jdbcSkipDrivers_iff Let_def)
qed

lemma parseJDBC_skipped:
  assumes "list_all is_word drv" and "map ascii_lower drv \<in> {''h2'', ''derby''}"
  shows "parseJDBC (''jdbc:'' @ drv @ '':'' @ rest) path = None"
proof -
  have w: "\<not> is_word (hd ('':'' @ rest))"
    by (simp add: is_word_def is_alnum_def is_digit_def)
  have "takeWhile is_word (drv @ '':'' @ rest) = drv"
    using assms(1) w by (intro takeWhile_run) simp_all
  then have "jdbcPattern (''jdbc:'' @ drv @ '':'' @ rest) = None
      \<or> (\<exists>h p. jdbcPattern (''jdbc:'' @ drv @ '':'' @ rest) = Some (drv, h, p))"
    by (simp add: jdbcPattern_def Let_def)
  then show ?thesis
    using assms(2) by (auto simp: parseJDBC_def jdbcSkipDrivers_iff Let_def)
qed

text \<open>
  C3. A JDBC URL is \<open>jdbc:\<close>, a driver (word characters), \<open>://\<close>, a host (anything but \<open>/\<close>
  and \<open>:\<close>), and possibly a colon with a port. With an explicit port the fact has that port
  and confidence High; with no port and a driver among postgresql/postgres (5432),
  mysql/mariadb (3306), oracle (1521), sqlserver/mssql (1433) the fact has the default port
  and confidence Medium; with no port and any other driver there is no fact; the drivers h2
  and derby, in any letter case, give no fact whatever follows them, as for
  \<open>jdbc:h2:mem:testdb\<close> and \<open>jdbc:derby:memory:testdb;create=true\<close>.
\<close>

theorem parseJDBC_port_and_confidence:
  assumes "drv \<noteq> []" and "list_all is_word drv"
    and "host \<noteq> []" and "list_all is_jdbc_host_char host"
  shows
    "(digits \<noteq> [] \<and> list_all is_digit digits \<and> (rest = [] \<or> \<not> is_digit (hd rest))
        \<and> map ascii_lower drv \<notin> {''h2'', ''derby''} \<longrightarrow>
      (\<exists>d. parseJDBC (''jdbc:'' @ drv @ ''://'' @ host @ '':'' @ digits @ rest) path = Some d
         \<and> Target d = host \<and> Port d = Atoi_value digits \<and> Confidence d = High))
     \<and> (jdbc_no_port rest \<and> map ascii_lower drv \<in> {''postgresql'', ''postgres''} \<longrightarrow>
      (\<exists>d. parseJDBC (''jdbc:'' @ drv @ ''://'' @ host @ rest) path = Some d
         \<and> Target d = host \<and> Port d = 5432 \<and> Confidence d = Medium))
     \<and> (jdbc_no_port rest \<and> map ascii_lower drv \<in> {''mysql'', ''mariadb''} \<longrightarrow>
      (\<exists>d. parseJDBC (''jdbc:'' @ drv @ ''://'' @ host @ rest) path = Some d
         \<and> Target d = host \<and> Port d = 3306 \<and> Confidence d = Medium))
     \<and> (jdbc_no_port rest \<and> map ascii_lower drv = ''oracle'' \<longrightarrow>
      (\<exists>d. parseJDBC (''jdbc:'' @ drv @ ''://'' @ host @ rest) path = Some d
         \<and> Target d = host \<and> Port d = 1521 \<and> Confidence d = Medium))
     \<and> (jdbc_no_port rest \<and> map ascii_lower drv \<in> {''sqlserver'', ''mssql''} \<longrightarrow>
      (\<exists>d. parseJDBC (''jdbc:'' @ drv @ ''://'' @ host @ rest) path = Some d
         \<and> Target d = host \<and> Port d = 1433 \<and> Confidence d = Medium))
     \<and> (jdbc_no_port rest \<and> map ascii_lower drv \<notin> {''postgresql'', ''postgres'', ''mysql'',
          ''mariadb'', ''oracle'', ''sqlserver'', ''mssql''} \<longrightarrow>
        parseJDBC (''jdbc:'' @ drv @ ''://'' @ host @ rest) path = None)
     \<and> (map ascii_lower drv \<in> {''h2'', ''derby''} \<longrightarrow>
        parseJDBC (''jdbc:'' @ drv @ '':'' @ anything) path = None)
     \<and> parseJDBC ''jdbc:h2:mem:testdb'' path = None
     \<and> parseJDBC ''jdbc:derby:memory:testdb;create=true'' path = None"
proof -
  have np: "parseJDBC (''jdbc:'' @ drv @ ''://'' @ host @ rest) path =
     (case jdbcDefaultPorts (map ascii_lower drv) of
        None \<Rightarrow> None
      | Some p \<Rightarrow> Some \<lparr>Source = [], Target = host, Port = p, Protocol = ''TCP'',
          Description = (case jdbcDescriptions (map ascii_lower drv) of Some d \<Rightarrow> d
             | None \<Rightarrow> map ascii_lower drv),
          Confidence = Medium, SourceFile = path\<rparr>)"
    if "jdbc_no_port rest" and "map ascii_lower drv \<notin> {''h2'', ''derby''}"
    using assms that by (rule parseJDBC_no_port)
  have sk: "parseJDBC (''jdbc:'' @ drv @ '':'' @ anything) path = None"
    if "map ascii_lower drv \<in> {''h2'', ''derby''}" for anything
    using assms(2) that by (rule parseJDBC_skipped)
  have c1: "digits \<noteq> [] \<and> list_all is_digit digits \<and> (rest = [] \<or> \<not> is_digit (hd rest))
        \<and> map ascii_lower drv \<notin> {''h2'', ''derby''} \<longrightarrow>
      (\<exists>d. parseJDBC (''jdbc:'' @ drv @ ''://'' @ host @ '':'' @ digits @ rest) path = Some d
         \<and> Target d = host \<and> Port d = Atoi_value digits \<and> Confidence d = High)"
    using parseJDBC_explicit_port [OF assms] by blast
  have c2: "jdbc_no_port rest \<and> map ascii_lower drv \<in> {''postgresql'', ''postgres''} \<longrightarrow>
      (\<exists>d. parseJDBC (''jdbc:'' @ drv @ ''://'' @ host @ rest) path = Some d
         \<and> Target d = host \<and> Port d = 5432 \<and> Confidence d = Medium)"
    using np by (auto simp: jdbcDefaultPorts_eq)
  have c3: "jdbc_no_port rest \<and> map ascii_lower drv \<in> {''mysql'', ''mariadb''} \<longrightarrow>
      (\<exists>d. parseJDBC (''jdbc:'' @ drv @ ''://'' @ host @ rest) path = Some d
         \<and> Target d = host \<and> Port d = 3306 \<and> Confidence d = Medium)"
    using np by (auto simp: jdbcDefaultPorts_eq)
  have c4: "jdbc_no_port rest \<and> map ascii_lower drv = ''oracle'' \<longrightarrow>
      (\<exists>d. parseJDBC (''jdbc:'' @ drv @ ''://'' @ host @ rest) path = Some d
         \<and> Target d = host \<and> Port d = 1521 \<and> Confidence d = Medium)"
    using np by (auto simp: jdbcDefaultPorts_eq)
  have c5: "jdbc_no_port rest \<and> map ascii_lower drv \<in> {''sqlserver'', ''mssql''} \<longrightarrow>
      (\<exists>d. parseJDBC (''jdbc:'' @ drv @ ''://'' @ host @ rest) path = Some d
         \<and> Target d = host \<and> Port d = 1433 \<and> Confidence d = Medium)"
    using np by (auto simp: jdbcDefaultPorts_eq)
  have c6: "jdbc_no_port rest \<and> map ascii_lower drv \<notin> {''postgresql'', ''postgres'', ''mysql'',
          ''mariadb'', ''oracle'', ''sqlserver'', ''mssql''} \<longrightarrow>
        parseJDBC (''jdbc:'' @ drv @ ''://'' @ host @ rest) path = None"
  proof (cases "map ascii_lower drv \<in> {''h2'', ''derby''}")
    case True
    from sk [OF True, of "''//'' @ host @ rest"] show ?thesis by simp
  next
    case False
    with np show ?thesis by (auto simp: jdbcDefaultPorts_eq)
  qed
  have c7: "map ascii_lower drv \<in> {''h2'', ''derby''} \<longrightarrow>
        parseJDBC (''jdbc:'' @ drv @ '':'' @ anything) path = None"
    by (rule impI) (rule sk)
  have c8: "parseJDBC ''jdbc:h2:mem:testdb'' path = None"
    using parseJDBC_skipped [of "''h2''" "''mem:testdb''" path]
    by (simp add: is_word_def is_alnum_def is_digit_def ascii_lower_def)
  have c9: "parseJDBC ''jdbc:derby:memory:testdb;create=true'' path = None"
    using parseJDBC_skipped [of "''derby''" "''memory:testdb;create=true''" path]
    by (simp add: is_word_def is_alnum_def is_digit_def ascii_lower_def)
  from c1 c2 c3 c4 c5 c6 c7 c8 c9 show ?thesis
    by (intro conjI)
qed

theorem parseJDBC_port_and_confidence_witness:
  "(\<exists>d. parseJDBC ''jdbc:postgresql://db-host:5432/mydb'' ''application.yml'' = Some d
       \<and> Target d = ''db-host'' \<and> Port d = 5432 \<and> Confidence d = High)
   \<and> (\<exists>d. parseJDBC ''jdbc:postgresql://db-host/mydb'' ''application.yml'' = Some d
       \<and> Target d = ''db-host'' \<and> Port d = 5432 \<and> Confidence d = Medium)
   \<and> (\<exists>d. parseJDBC ''jdbc:MariaDB://db-host'' ''application.yml'' = Some d
       \<and> Target d = ''db-host'' \<and> Port d = 3306 \<and> Confidence d = Medium)
   \<and> (\<exists>d. parseJDBC ''jdbc:oracle://db-host:/orcl'' ''application.yml'' = Some d
       \<and> Target d = ''db-host'' \<and> Port d = 1521 \<and> Confidence d = Medium)
   \<and> (\<exists>d. parseJDBC ''jdbc:mssql://db-host/mydb'' ''application.yml'' = Some d
       \<and> Target d = ''db-host'' \<and> Port d = 1433 \<and> Confidence d = Medium)
   \<and> parseJDBC ''jdbc:mongodb://db-host/mydb'' ''application.yml'' = None
   \<and> parseJDBC ''jdbc:H2:tcp://db-host:9092/mydb'' ''application.yml'' = None"
proof -
  have h: "''db-host'' \<noteq> []" "list_all is_jdbc_host_char ''db-host''"
    by (simp_all add: is_jdbc_host_char_def)
  have w: "list_all is_word ''postgresql''" "list_all is_word ''MariaDB''"
    "list_all is_word ''oracle''" "list_all is_word ''mssql''" "list_all is_word ''mongodb''"
    "list_all is_word ''H2''"
    by (simp_all add: is_word_def is_alnum_def is_digit_def)
  have np: "jdbc_no_port ''/mydb''" "jdbc_no_port []" "jdbc_no_port '':/orcl''"
    by (simp_all add: jdbc_no_port_def is_digit_def)
  have a: "Atoi_value ''5432'' = 5432"
    by (simp add: Atoi_value_def Atoi_def decimal_def digit_val_def is_digit_def)
  have 1: "\<exists>d. parseJDBC ''jdbc:postgresql://db-host:5432/mydb'' ''application.yml'' = Some d
       \<and> Target d = ''db-host'' \<and> Port d = 5432 \<and> Confidence d = High"
    using parseJDBC_port_and_confidence [OF _ w(1) h, where digits = "''5432''"
        and rest = "''/mydb''" and path = "''application.yml''"] a
    by (simp add: is_digit_def ascii_lower_def)
  have 2: "\<exists>d. parseJDBC ''jdbc:postgresql://db-host/mydb'' ''application.yml'' = Some d
       \<and> Target d = ''db-host'' \<and> Port d = 5432 \<and> Confidence d = Medium"
    using parseJDBC_port_and_confidence [OF _ w(1) h, where rest = "''/mydb''"
        and path = "''application.yml''"] np
    by (simp add: ascii_lower_def)
  have 3: "\<exists>d. parseJDBC ''jdbc:MariaDB://db-host'' ''application.yml'' = Some d
       \<and> Target d = ''db-host'' \<and> Port d = 3306 \<and> Confidence d = Medium"
    using parseJDBC_port_and_confidence [OF _ w(2) h, where rest = "[]"
        and path = "''application.yml''"] np
    by (simp add: ascii_lower_def char_of_eq_iff)
  have 4: "\<exists>d. parseJDBC ''jdbc:oracle://db-host:/orcl'' ''application.yml'' = Some d
       \<and> Target d = ''db-host'' \<and> Port d = 1521 \<and> Confidence d = Medium"
    using parseJDBC_port_and_confidence [OF _ w(3) h, where rest = "'':/orcl''"
        and path = "''application.yml''"] np
    by (simp add: ascii_lower_def)
  have 5: "\<exists>d. parseJDBC ''jdbc:mssql://db-host/mydb'' ''application.yml'' = Some d
       \<and> Target d = ''db-host'' \<and> Port d = 1433 \<and> Confidence d = Medium"
    using parseJDBC_port_and_confidence [OF _ w(4) h, where rest = "''/mydb''"
        and path = "''application.yml''"] np
    by (simp add: ascii_lower_def)
  have 6: "parseJDBC ''jdbc:mongodb://db-host/mydb'' ''application.yml'' = None"
    using parseJDBC_port_and_confidence [OF _ w(5) h, where rest = "''/mydb''"
        and path = "''application.yml''"] np
    by (simp add: ascii_lower_def)
  have 7: "parseJDBC ''jdbc:H2:tcp://db-host:9092/mydb'' ''application.yml'' = None"
    using parseJDBC_port_and_confidence [OF _ w(6) h, where path = "''application.yml''"
        and anything = "''tcp://db-host:9092/mydb''"]
    by (simp add: ascii_lower_def char_of_eq_iff)
  from 1 2 3 4 5 6 7 show ?thesis
    by (intro conjI)
qed

section \<open>Properties of the Kubernetes value recognizer\<close>

lemma HasPrefix_split: "HasPrefix s p \<Longrightarrow> s = p @ drop (length p) s"
  unfolding HasPrefix_def by (metis append_take_drop_id)

lemma dns_tail_sound:
  assumes "dns_tail t = Some (ns, after)"
  shows "t = ''.'' @ ns @ ''.svc.cluster.local'' @ after \<and> is_dns_namespace ns"
proof -
  from assms obtain d n t' where t: "t = d # n # t'"
    by (cases t; cases "tl t") (auto simp: dns_tail_def)
  define u where "u = dropWhile is_label_char t'"
  from assms t have d: "d = CHR ''.''" and n: "is_alnum n"
    and ns: "ns = n # takeWhile is_label_char t'"
    and pre: "HasPrefix u ''.svc.cluster.local''" and after: "after = drop 18 u"
    unfolding u_def by (auto simp: dns_tail_def Let_def split: if_splits)
  have "u = ''.svc.cluster.local'' @ drop (length ''.svc.cluster.local'') u"
    using pre by (rule HasPrefix_split)
  moreover have "length ''.svc.cluster.local'' = 18"
    by simp
  ultimately have u: "u = ''.svc.cluster.local'' @ after"
    using after by metis
  have "t' = takeWhile is_label_char t' @ u"
    unfolding u_def by simp
  with t d ns u have "t = ''.'' @ ns @ ''.svc.cluster.local'' @ after"
    by simp
  moreover have "is_dns_namespace ns"
    using n ns by (auto simp: is_dns_namespace_def list_all_iff dest: set_takeWhileD)
  ultimately show ?thesis
    by simp
qed


lemma k8sDNSRe_try_sound:
  "k8sDNSRe_try g rest = Some (svc, ns, after) \<Longrightarrow>
     \<exists>b. rev g = svc @ b \<and> svc \<noteq> [] \<and> dns_tail (b @ rest) = Some (ns, after)"
proof (induction g arbitrary: rest)
  case Nil
  then show ?case by simp
next
  case (Cons x g)
  show ?case
  proof (cases "dns_tail rest")
    case (Some m)
    with Cons.prems have "svc = rev (x # g)" and "dns_tail rest = Some (ns, after)"
      by (auto split: prod.splits)
    then show ?thesis by auto
  next
    case None
    with Cons.prems have g: "g \<noteq> []" and "k8sDNSRe_try g (x # rest) = Some (svc, ns, after)"
      by (auto split: if_splits)
    from Cons.IH [OF this(2)] obtain b where "rev g = svc @ b" and "svc \<noteq> []"
      and "dns_tail (b @ x # rest) = Some (ns, after)"
      by blast
    then have "rev (x # g) = svc @ (b @ [x]) \<and> svc \<noteq> []
        \<and> dns_tail ((b @ [x]) @ rest) = Some (ns, after)"
      by simp
    then show ?thesis by blast
  qed
qed


lemma k8sDNSRe_at_sound:
  assumes "k8sDNSRe_at s = Some (svc, ns, after)"
  shows "s = dns_name svc ns @ after \<and> is_dns_service svc \<and> is_dns_namespace ns"
proof -
  from assms obtain c cs where s: "s = c # cs" and c: "is_alnum c"
    and t: "k8sDNSRe_try (rev (c # takeWhile is_k8s_host_char cs))
              (dropWhile is_k8s_host_char cs) = Some (svc, ns, after)"
    by (cases s) (auto simp: k8sDNSRe_at_def split: if_splits)
  from k8sDNSRe_try_sound [OF t] obtain b where
    b: "c # takeWhile is_k8s_host_char cs = svc @ b" and ne: "svc \<noteq> []"
    and tail: "dns_tail (b @ dropWhile is_k8s_host_char cs) = Some (ns, after)"
    by auto
  from dns_tail_sound [OF tail] have
    e: "b @ dropWhile is_k8s_host_char cs = ''.'' @ ns @ ''.svc.cluster.local'' @ after"
    and n: "is_dns_namespace ns"
    by simp_all
  have "s = (c # takeWhile is_k8s_host_char cs) @ dropWhile is_k8s_host_char cs"
    using s by simp
  also have "\<dots> = svc @ (b @ dropWhile is_k8s_host_char cs)"
    using b by simp
  finally have "s = dns_name svc ns @ after"
    using e by (simp add: dns_name_def)
  moreover from b ne have "hd svc = c" and "set (tl svc) \<subseteq> set (takeWhile is_k8s_host_char cs)"
    by (cases svc; auto)+
  then have "is_dns_service svc"
    using ne c by (auto simp: is_dns_service_def list_all_iff dest: set_takeWhileD)
  ultimately show ?thesis
    using n by simp
qed


lemma k8sDNSRe_sound:
  "k8sDNSRe s = Some (svc, ns, after) \<Longrightarrow>
     \<exists>pre. s = pre @ dns_name svc ns @ after \<and> is_dns_service svc \<and> is_dns_namespace ns"
proof (induction s)
  case Nil
  then show ?case by simp
next
  case (Cons c cs)
  show ?case
  proof (cases "k8sDNSRe_at (c # cs)")
    case (Some m)
    with Cons.prems have "k8sDNSRe_at (c # cs) = Some (svc, ns, after)"
      by simp
    from k8sDNSRe_at_sound [OF this] have
      "c # cs = [] @ dns_name svc ns @ after \<and> is_dns_service svc \<and> is_dns_namespace ns"
      by simp
    then show ?thesis by blast
  next
    case None
    with Cons.prems have "k8sDNSRe cs = Some (svc, ns, after)"
      by simp
    from Cons.IH [OF this] obtain pre where
      "cs = pre @ dns_name svc ns @ after" and "is_dns_service svc" and "is_dns_namespace ns"
      by blast
    then have "c # cs = (c # pre) @ dns_name svc ns @ after \<and> is_dns_service svc
        \<and> is_dns_namespace ns"
      by simp
    then show ?thesis by blast
  qed
qed









lemma dns_name_unique:
  assumes "p1 @ dns_name s1 n1 @ q1 = p2 @ dns_name s2 n2 @ q2"
    and "length p1 = length p2" and "length s1 = length s2"
    and "is_dns_namespace n1" and "is_dns_namespace n2"
  shows "p1 = p2 \<and> s1 = s2 \<and> n1 = n2 \<and> q1 = q2"
proof -
  have nl: "\<not> is_label_char (hd (''.svc.cluster.local'' @ q))" for q
    by (simp add: is_label_char_def is_alnum_def is_digit_def)
  have run: "list_all is_label_char n" if "is_dns_namespace n" for n
    using that by (cases n) (auto simp: is_dns_namespace_def is_label_char_def)
  have tw: "takeWhile is_label_char (n @ ''.svc.cluster.local'' @ q) = n"
    if "is_dns_namespace n" for n q
    using run [OF that] nl [of q] by (intro takeWhile_run) simp_all
  from assms(1,2) have p: "p1 = p2" and r: "dns_name s1 n1 @ q1 = dns_name s2 n2 @ q2"
    by simp_all
  from r assms(3) have s: "s1 = s2"
    and t: "n1 @ ''.svc.cluster.local'' @ q1 = n2 @ ''.svc.cluster.local'' @ q2"
    by (simp_all add: dns_name_def)
  have "n1 = takeWhile is_label_char (n1 @ ''.svc.cluster.local'' @ q1)"
    using tw [OF assms(4)] by simp
  also have "\<dots> = n2"
    unfolding t using tw [OF assms(5)] by simp
  finally have n: "n1 = n2" .
  with t have "q1 = q2"
    by simp
  with p s n show ?thesis
    by simp
qed














text \<open>
  Outside the amended claim: \<open>hostPortRe\<close> scans the value from its start, so a host:port
  pair that stands before the DNS name gives its port to the fact, where the comment in the
  source reads \<open>extract port if present after the DNS name\<close>.
\<close>

lemma extractDepsFromValue_port_of_earlier_pair:
  assumes "\<not> k8s_url_rule u"
  shows "map (\<lambda>d. (Target d, Port d))
      (extractDepsFromValue u ''redis-master:6379,postgres.prod.svc.cluster.local:5432''
         source ctx confidence path) = [(''postgres.prod'', 6379)]"
proof -
  have "k8sDNSRe ''redis-master:6379,postgres.prod.svc.cluster.local:5432''
      = Some (''postgres'', ''prod'', '':5432'')"
    by code_simp
  moreover have "hostPortRe ''redis-master:6379,postgres.prod.svc.cluster.local:5432''
      = Some (''redis-master'', ''6379'', '',postgres.prod.svc.cluster.local:5432'')"
    by code_simp
  moreover have "Atoi_value ''6379'' = 6379"
    by (simp add: Atoi_value_def Atoi_def decimal_def digit_val_def is_digit_def)
  ultimately show ?thesis
    using assms by (simp add: extractDepsFromValue_def)
qed

section \<open>Properties of the Spring extractor\<close>

text \<open>
  C7. The bare host:port rule of \<open>extractFromValue\<close>, which the Spring, \<open>.env\<close> and Compose
  extractors use, has no guard: a value whose host begins with \<open>sha\<close> gives a fact, and so
  does a port above 65535. The same rule of the Kubernetes extractor rejects both values.
\<close>

theorem extractFromValue_has_no_guard:
  "extractFromValue ex_digest_url ex_digest ''.env''
     = Some (mk_dep ''sha256'' 45 ''network service'' Medium ''.env'')
   \<and> extractFromValue ex_big_port_url ex_big_port ''.env''
     = Some (mk_dep ''cache'' 99999 ''network service'' Medium ''.env'')
   \<and> extractDepsFromValue ex_digest_url ex_digest ''web'' ''env IMAGE'' High ''web.yaml'' = []
   \<and> extractDepsFromValue ex_big_port_url ex_big_port ''web'' ''env CACHE'' High ''web.yaml'' = []"
proof -
  have "extractFromValue ex_digest_url ex_digest ''.env''
     = Some (mk_dep ''sha256'' 45 ''network service'' Medium ''.env'')"
    by code_simp
  moreover have "extractFromValue ex_big_port_url ex_big_port ''.env''
     = Some (mk_dep ''cache'' 99999 ''network service'' Medium ''.env'')"
    by code_simp
  moreover have
    "extractDepsFromValue ex_digest_url ex_digest ''web'' ''env IMAGE'' High ''web.yaml'' = []"
    by code_simp
  moreover have
    "extractDepsFromValue ex_big_port_url ex_big_port ''web'' ''env CACHE'' High ''web.yaml'' = []"
    by code_simp
  ultimately show ?thesis
    by (intro conjI)
qed

text \<open>
  In the Kubernetes extractor every fact of the bare host:port rule has a host that does not
  begin with \<open>sha\<close> and a port between 1 and 65535.
\<close>

lemma extractDepsFromValue_host_port_guard:
  assumes "\<not> k8s_url_rule u" and "k8sDNSRe value = None"
    and "d \<in> set (extractDepsFromValue u value source ctx confidence path)"
  shows "\<not> HasPrefix (Target d) ''sha'' \<and> 1 \<le> Port d \<and> Port d \<le> 65535"
proof -
  from assms obtain host port_text where "(host, port_text) \<in> set (hostPortRe_all value)"
    and "d \<in> set (let port = Atoi_value port_text
         in if HasPrefix host ''sha'' \<or> port < 1 \<or> port > 65535 then []
            else [\<lparr>Source = source, Target = host, Port = port, Protocol = ''TCP'',
              Description = ctx @ '': host:port '' @ host @ '':'' @ fmt_d port,
              Confidence = confidence, SourceFile = path\<rparr>])"
    by (auto simp: extractDepsFromValue_def)
  then show ?thesis
    by (auto simp: Let_def split: if_splits)
qed

text \<open>
  C8. The properties dialect reads \<open>spring.redis.host\<close> and gives the default port 6379,
  but it does not read \<open>spring.data.redis.host\<close>: a file that only sets the Spring Boot 3
  key gives no fact, while the YAML dialect gives the Redis fact for the same setting.
\<close>

theorem parseSpringProperties_misses_data_redis:
  "parseSpringProperties url_Parse (Lines [''spring.data.redis.host=redis-host''])
       ''application.properties'' = Inr []
   \<and> parseSpringProperties url_Parse (Lines [''spring.redis.host=redis-host''])
       ''application.properties''
     = Inr [mk_dep ''redis-host'' 6379 ''Redis'' High ''application.properties'']
   \<and> extractSpringDeps ex_boot3_config ''application.yml''
     = [mk_dep ''redis-host'' 6379 ''Redis'' High ''application.yml'']"
proof -
  have "parseSpringProperties url_Parse (Lines [''spring.data.redis.host=redis-host''])
       ''application.properties'' = Inr []"
    by code_simp
  moreover have "parseSpringProperties url_Parse (Lines [''spring.redis.host=redis-host''])
       ''application.properties''
     = Inr [mk_dep ''redis-host'' 6379 ''Redis'' High ''application.properties'']"
    by code_simp
  moreover have "extractSpringDeps ex_boot3_config ''application.yml''
     = [mk_dep ''redis-host'' 6379 ''Redis'' High ''application.yml'']"
    by code_simp
  ultimately show ?thesis
    by (intro conjI)
qed

section \<open>Properties of the policy synthesizer\<close>

text \<open>
  The output of the synthesizer is the list of its \<open>Fprintf\<close> calls; \<open>port_lines\<close>
  reads off the numbers printed by the calls with format \<open>- port: %d\<close>, the only
  calls that print a \<open>port:\<close> line.
\<close>

lemma port_lines_append: "port_lines (a @ b) = port_lines a @ port_lines b"
proof (induction a)
  case Nil
  show ?case by simp
next
  case (Cons c a)
  then show ?case by (cases c) simp
qed

lemma port_lines_concat: "port_lines (concat xs) = concat (map port_lines xs)"
  by (induction xs) (simp_all add: port_lines_append)

lemma port_lines_render_selector: "port_lines (render_selector L direction name) = []"
  by (simp add: render_selector_def Let_def port_lines_append)

lemma port_lines_render_ports: "port_lines (render_ports L p proto) = [p]"
  by (simp add: render_ports_def Let_def)

lemma port_lines_dns_egress: "port_lines dns_egress = []"
  by (simp add: dns_egress_def)

lemma set_sort_Slice_by_Key: "set (sort_Slice_by_Key xs) = set xs"
  by (simp add: sort_Slice_by_Key_def)

lemma skipped_rule_step: "set (skipped st) \<subseteq> set (skipped (rule_step st x))"
  by (auto simp: rule_step_def Let_def)

lemma skipped_foldl_mono: "set (skipped st) \<subseteq> set (skipped (foldl rule_step st xs))"
proof (induction xs arbitrary: st)
  case Nil
  show ?case by simp
next
  case (Cons x xs)
  have "set (skipped st) \<subseteq> set (skipped (rule_step st x))"
    by (rule skipped_rule_step)
  also have "\<dots> \<subseteq> set (skipped (foldl rule_step (rule_step st x) xs))"
    by (rule Cons.IH)
  finally show ?case by simp
qed

lemma skipped_foldl:
  "d \<in> set xs \<Longrightarrow> Port d \<le> 0 \<Longrightarrow> Target d \<in> set (skipped (foldl rule_step st xs))"
proof (induction xs arbitrary: st)
  case Nil
  then show ?case by simp
next
  case (Cons x xs)
  show ?case
  proof (cases "d = x")
    case True
    with Cons.prems have "Target d \<in> set (skipped (rule_step st x))"
      by (simp add: rule_step_def)
    then show ?thesis
      using skipped_foldl_mono [of "rule_step st x" xs] by auto
  next
    case False
    with Cons.prems have "d \<in> set xs" by simp
    from Cons.IH [OF this Cons.prems(2)] show ?thesis by simp
  qed
qed

lemma rules_rule_step:
  "rules (rule_step st x) = rules st
   \<or> (0 < Port x \<and> rules (rule_step st x)
         = rules st @ [\<lparr>target = Target x, port = Port x, protocol = Protocol x\<rparr>])"
  by (simp add: rule_step_def Let_def)

lemma rules_foldl:
  assumes "\<forall>r \<in> set (rules st). \<exists>d \<in> A. Port d = port r \<and> 0 < port r" and "set xs \<subseteq> A"
  shows "\<forall>r \<in> set (rules (foldl rule_step st xs)). \<exists>d \<in> A. Port d = port r \<and> 0 < port r"
  using assms
proof (induction xs arbitrary: st)
  case Nil
  then show ?case by simp
next
  case (Cons x xs)
  have x: "x \<in> A"
    using Cons.prems(2) by simp
  have "\<forall>r \<in> set (rules (rule_step st x)). \<exists>d \<in> A. Port d = port r \<and> 0 < port r"
  proof
    fix r
    assume r: "r \<in> set (rules (rule_step st x))"
    from rules_rule_step [of st x] show "\<exists>d \<in> A. Port d = port r \<and> 0 < port r"
    proof
      assume "rules (rule_step st x) = rules st"
      with r Cons.prems(1) show ?thesis by simp
    next
      assume a: "0 < Port x \<and> rules (rule_step st x)
         = rules st @ [\<lparr>target = Target x, port = Port x, protocol = Protocol x\<rparr>]"
      then have "set (rules (rule_step st x))
          = set (rules st) \<union> {\<lparr>target = Target x, port = Port x, protocol = Protocol x\<rparr>}"
        by (metis Un_insert_right append_Nil2 list.simps(15) set_append sup_bot.right_neutral)
      with r have "r \<in> set (rules st)
          \<or> r = \<lparr>target = Target x, port = Port x, protocol = Protocol x\<rparr>"
        by blast
      then show ?thesis
      proof
        assume "r \<in> set (rules st)"
        with Cons.prems(1) show ?thesis by simp
      next
        assume "r = \<lparr>target = Target x, port = Port x, protocol = Protocol x\<rparr>"
        then have "Port x = port r \<and> 0 < port r"
          using a by simp
        with x show ?thesis by blast
      qed
    qed
  qed
  moreover have "set xs \<subseteq> A"
    using Cons.prems(2) by simp
  ultimately have "\<forall>r \<in> set (rules (foldl rule_step (rule_step st x) xs)).
      \<exists>d \<in> A. Port d = port r \<and> 0 < port r"
    by (rule Cons.IH)
  then show ?case by simp
qed

lemma dedupe_step_seen:
  "map_get_bool (fst (dedupe_step (sn, out) a)) s \<longleftrightarrow> map_get_bool sn s \<or> s = a"
  by (cases "s = a") (simp_all add: dedupe_step_def map_get_bool_def)

lemma dedupe_step_out:
  "set (snd (dedupe_step (sn, out) a)) = (if map_get_bool sn a then set out else insert a (set out))"
  by (simp add: dedupe_step_def)

lemma dedupe_loop_set:
  assumes "\<forall>s. map_get_bool sn s \<longleftrightarrow> s \<in> set out"
  shows "set (snd (foldl dedupe_step (sn, out) ss)) = set out \<union> set ss"
  using assms
proof (induction ss arbitrary: sn out)
  case Nil
  show ?case by simp
next
  case (Cons a ss)
  obtain sn' out' where st: "dedupe_step (sn, out) a = (sn', out')"
    by (cases "dedupe_step (sn, out) a")
  have o: "set out' = insert a (set out)"
    using dedupe_step_out [of sn out a] Cons.prems unfolding st by auto
  have "\<forall>s. map_get_bool sn' s \<longleftrightarrow> s \<in> set out'"
  proof
    fix s
    have "map_get_bool sn' s \<longleftrightarrow> map_get_bool sn s \<or> s = a"
      using dedupe_step_seen [of sn out a s] unfolding st by simp
    also have "\<dots> \<longleftrightarrow> s \<in> set out \<or> s = a"
      using Cons.prems by blast
    also have "\<dots> \<longleftrightarrow> s \<in> set out'"
      unfolding o by blast
    finally show "map_get_bool sn' s \<longleftrightarrow> s \<in> set out'" .
  qed
  then have "set (snd (foldl dedupe_step (sn', out') ss)) = set out' \<union> set ss"
    by (rule Cons.IH)
  then show ?case
    unfolding foldl_Cons st o by auto
qed

lemma set_dedupeStrings: "set (dedupeStrings ss) = set ss"
proof (cases "ss = []")
  case True
  then show ?thesis by (simp add: dedupeStrings_def)
next
  case False
  have "set (snd (foldl dedupe_step (Map.empty, []) ss)) = set [] \<union> set ss"
    by (rule dedupe_loop_set) (simp add: map_get_bool_def)
  with False show ?thesis
    by (simp add: dedupeStrings_def)
qed

lemma set_Dependencies: "set (Dependencies ds) = set (deps ds)"
  by (simp add: Dependencies_def sort_Slice_by_Key_def)

lemma set_IngressFor: "set (IngressFor ds svc) = {d \<in> set (deps ds). Target d = svc}"
  by (simp add: IngressFor_def sort_Slice_by_Key_def)

lemma set_EgressFor: "set (EgressFor ds svc) = {d \<in> set (deps ds). Source d = svc}"
  by (simp add: EgressFor_def sort_Slice_by_Key_def)

lemma port_lines_rules:
  "port_lines (concat (map (\<lambda>rule. renderEgressTo L (target rule)
      @ render_ports L (port rule) (protocol rule)) rs)) = map port rs"
  by (induction rs)
    (simp_all add: port_lines_append renderEgressTo_def port_lines_render_selector
      port_lines_render_ports)

lemma port_lines_NetworkPolicy:
  "port_lines (NetworkPolicy L ds) =
     (if Dependencies ds = [] then []
      else map port (rules (foldl rule_step \<lparr>rules = [], seen_rules = Map.empty, skipped = []\<rparr>
             (Dependencies ds))))"
  by (simp add: NetworkPolicy_def Let_def port_lines_append port_lines_rules port_lines_dns_egress)

lemma port_lines_ingress_calls:
  "port_lines (ingress_calls L d) = (if Source d \<noteq> [] \<and> 0 < Port d then [Port d] else [])"
  by (simp add: ingress_calls_def renderIngressFrom_def port_lines_append
      port_lines_render_selector port_lines_render_ports)

lemma port_lines_egress_calls:
  "port_lines (egress_calls L d) = (if 0 < Port d then [Port d] else [])"
  by (simp add: egress_calls_def renderEgressTo_def port_lines_append
      port_lines_render_selector port_lines_render_ports)

lemma port_lines_service_policy:
  "set (port_lines (service_policy L ds svc)) \<subseteq> {Port d | d. d \<in> set (deps ds) \<and> 0 < Port d}"
proof -
  have i: "set (concat (map port_lines (map (ingress_calls L) (IngressFor ds svc))))
      \<subseteq> {Port d | d. d \<in> set (deps ds) \<and> 0 < Port d}"
    by (auto simp: port_lines_ingress_calls set_IngressFor split: if_splits)
  have e: "set (concat (map port_lines (map (egress_calls L) (EgressFor ds svc))))
      \<subseteq> {Port d | d. d \<in> set (deps ds) \<and> 0 < Port d}"
    by (auto simp: port_lines_egress_calls set_EgressFor split: if_splits)
  have "port_lines (service_policy L ds svc) =
      (if IngressFor ds svc \<noteq> []
       then concat (map port_lines (map (ingress_calls L) (IngressFor ds svc))) else [])
      @ (if EgressFor ds svc \<noteq> []
         then concat (map port_lines (map (egress_calls L) (EgressFor ds svc))) else [])"
    by (simp add: service_policy_def Let_def port_lines_append port_lines_concat
        port_lines_dns_egress)
  with i e show ?thesis
    by auto
qed

lemma port_lines_policies:
  "set (port_lines (policies L ds first svcs)) \<subseteq> {Port d | d. d \<in> set (deps ds) \<and> 0 < Port d}"
proof (induction svcs arbitrary: first)
  case Nil
  show ?case by simp
next
  case (Cons svc svcs)
  have "set (port_lines (policies L ds first (svc # svcs)))
      = set (port_lines (service_policy L ds svc)) \<union> set (port_lines (policies L ds False svcs))"
    by (simp add: port_lines_append)
  with port_lines_service_policy [of L ds svc] Cons.IH [of False] show ?case
    by auto
qed

lemma deps_Add_New: "deps (Add (NewDependencySet name) a) = [a]"
  by (simp add: Add_def NewDependencySet_def Let_def map_get_bool_def)

lemma deps_ex_compose_set: "deps ex_compose_set = [ex_depends_on, ex_exposed]"
proof -
  have "Key ex_depends_on \<noteq> Key ex_exposed"
    by (simp add: Key_def ex_depends_on_def ex_exposed_def)
  then show ?thesis
    unfolding ex_compose_set_def by (rule deps_Add_Add_New)
qed

lemma Key_ex_exposed_less: "Key ex_exposed < Key ex_depends_on"
  by (simp add: Key_def ex_depends_on_def ex_exposed_def)

lemma Dependencies_ex_compose_set: "Dependencies ex_compose_set = [ex_exposed, ex_depends_on]"
  using Key_ex_exposed_less
  by (simp add: Dependencies_def sort_Slice_by_Key_def deps_ex_compose_set)

lemma port_lines_ex_compose_set: "port_lines (NetworkPolicy L ex_compose_set) = [8080]"
  by (simp add: port_lines_NetworkPolicy Dependencies_ex_compose_set rule_step_def Let_def
      map_get_bool_def ex_depends_on_def ex_exposed_def)

text \<open>
  C5. A stored fact with port 0 or less never produces a \<open>port:\<close> line, in neither
  policy mode: every port printed by \<open>NetworkPolicy\<close> and by
  \<open>PerServiceNetworkPolicy\<close> is the port of a stored fact and is positive. In
  single-policy mode the target of every fact with port 0 or less is named in the
  comment \<open># Skipped (no port): ...\<close>, which joins the skipped targets with a comma.
  The two lines \<open>- port: 53\<close> of the DNS rule are printed from a literal, not from the
  port of a fact, and are not port lines in this sense; when that rule is printed is the
  subject of C6.
\<close>

theorem no_port_line_without_port:
  "(\<forall>p \<in> set (port_lines (NetworkPolicy L ds)). \<exists>d \<in> set (deps ds). Port d = p \<and> 0 < p)
   \<and> (\<forall>p \<in> set (port_lines (PerServiceNetworkPolicy L ds)).
        \<exists>d \<in> set (deps ds). Port d = p \<and> 0 < p)
   \<and> (\<forall>d \<in> set (deps ds). Port d \<le> 0 \<longrightarrow>
        (\<exists>ts. Fprintf ''# Skipped (no port): %s\<newline>'' [Str (Join ts '', '')]
                \<in> set (NetworkPolicy L ds)
           \<and> Target d \<in> set ts))"
proof (intro conjI ballI impI)
  let ?st = "foldl rule_step \<lparr>rules = [], seen_rules = Map.empty, skipped = []\<rparr>
      (Dependencies ds)"
  fix p
  assume "p \<in> set (port_lines (NetworkPolicy L ds))"
  then have "p \<in> port ` set (rules ?st)"
    by (simp add: port_lines_NetworkPolicy split: if_splits)
  then obtain r where r: "r \<in> set (rules ?st)" and p: "p = port r"
    by blast
  have "\<forall>r \<in> set (rules ?st). \<exists>d \<in> set (deps ds). Port d = port r \<and> 0 < port r"
    by (rule rules_foldl) (simp_all add: set_Dependencies)
  with r p show "\<exists>d \<in> set (deps ds). Port d = p \<and> 0 < p"
    by blast
next
  fix p
  assume "p \<in> set (port_lines (PerServiceNetworkPolicy L ds))"
  then have "p \<in> set (port_lines (policies L ds True (serviceList (Dependencies ds))))"
    by (simp add: PerServiceNetworkPolicy_def Let_def split: if_splits)
  with port_lines_policies [of L ds True "serviceList (Dependencies ds)"]
  show "\<exists>d \<in> set (deps ds). Port d = p \<and> 0 < p"
    by blast
next
  let ?st = "foldl rule_step \<lparr>rules = [], seen_rules = Map.empty, skipped = []\<rparr>
      (Dependencies ds)"
  let ?ts = "dedupeStrings (skipped ?st)"
  fix d
  assume d: "d \<in> set (deps ds)" and np: "Port d \<le> 0"
  from d have d': "d \<in> set (Dependencies ds)"
    by (simp add: set_Dependencies)
  then have ne: "Dependencies ds \<noteq> []"
    by auto
  from d' np have "Target d \<in> set (skipped ?st)"
    by (rule skipped_foldl)
  then have t: "Target d \<in> set ?ts"
    by (simp add: set_dedupeStrings)
  then have "?ts \<noteq> []"
    by auto
  with ne have "Fprintf ''# Skipped (no port): %s\<newline>'' [Str (Join ?ts '', '')]
      \<in> set (NetworkPolicy L ds)"
    by (simp add: NetworkPolicy_def Let_def)
  with t show "\<exists>ts. Fprintf ''# Skipped (no port): %s\<newline>'' [Str (Join ts '', '')]
                \<in> set (NetworkPolicy L ds) \<and> Target d \<in> set ts"
    by blast
qed

text \<open>
  The theorem at the set of a Compose file with one \<open>depends_on\<close> fact (port 0) and
  one exposed port 8080: the only port printed is 8080, and \<open>db\<close> is in the comment.
\<close>

theorem no_port_line_without_port_witness:
  "8080 \<in> set (port_lines (NetworkPolicy ex_lib ex_compose_set))
   \<and> (\<exists>d \<in> set (deps ex_compose_set). Port d = 8080 \<and> (0::int) < 8080)
   \<and> ex_depends_on \<in> set (deps ex_compose_set) \<and> Port ex_depends_on \<le> 0
   \<and> (\<exists>ts. Fprintf ''# Skipped (no port): %s\<newline>'' [Str (Join ts '', '')]
           \<in> set (NetworkPolicy ex_lib ex_compose_set)
         \<and> Target ex_depends_on \<in> set ts)"
proof -
  have p: "8080 \<in> set (port_lines (NetworkPolicy ex_lib ex_compose_set))"
    by (simp add: port_lines_ex_compose_set)
  have d: "ex_depends_on \<in> set (deps ex_compose_set)"
    by (simp add: deps_ex_compose_set)
  have n: "Port ex_depends_on \<le> 0"
    by (simp add: ex_depends_on_def)
  note t = no_port_line_without_port [of ex_lib ex_compose_set]
  from t p have "\<exists>d \<in> set (deps ex_compose_set). Port d = 8080 \<and> (0::int) < 8080"
    by blast
  moreover from t d n have "\<exists>ts. Fprintf ''# Skipped (no port): %s\<newline>'' [Str (Join ts '', '')]
           \<in> set (NetworkPolicy ex_lib ex_compose_set)
         \<and> Target ex_depends_on \<in> set ts"
    by blast
  ultimately show ?thesis
    using p d n by (intro conjI)
qed

subsection \<open>The DNS egress rule of per-service policies\<close>

text \<open>
  \<open>kube_system_line\<close> is the namespace selector of the DNS rule; no other call of a
  per-service policy prints it.
\<close>

lemma kube_in_dns_egress: "kube_system_line \<in> set dns_egress"
  by (simp add: kube_system_line_def dns_egress_def)

lemma kube_not_in_selector:
  "kube_system_line \<notin> set (renderIngressFrom L name)"
  "kube_system_line \<notin> set (renderEgressTo L name)"
  by (simp_all add: kube_system_line_def renderIngressFrom_def renderEgressTo_def
      render_selector_def Let_def)

lemma kube_not_in_ports: "kube_system_line \<notin> set (render_ports L p proto)"
  by (simp add: kube_system_line_def render_ports_def Let_def)

lemma kube_not_in_ingress: "kube_system_line \<notin> set (concat (map (ingress_calls L) ds))"
  by (induction ds)
    (simp_all add: ingress_calls_def kube_not_in_selector kube_not_in_ports)

lemma kube_not_in_egress: "kube_system_line \<notin> set (concat (map (egress_calls L) ds))"
  by (induction ds)
    (simp_all add: egress_calls_def kube_not_in_selector kube_not_in_ports)

lemma kube_in_service_policy:
  "kube_system_line \<in> set (service_policy L ds svc) \<longleftrightarrow> EgressFor ds svc \<noteq> []"
proof -
  have h: "kube_system_line \<notin> set
     [Fprintf ''apiVersion: networking.k8s.io/v1\<newline>'' [],
      Fprintf ''kind: NetworkPolicy\<newline>'' [],
      Fprintf ''metadata:\<newline>'' [],
      Fprintf ''  name: %s-netpol\<newline>'' [Str (sanitizeName (unicode_ToLower L) svc)],
      Fprintf ''  labels:\<newline>'' [],
      Fprintf ''    generated-by: segspec\<newline>'' [],
      Fprintf ''spec:\<newline>'' [],
      Fprintf ''  podSelector:\<newline>'' [],
      Fprintf ''    matchLabels:\<newline>'' [],
      Fprintf ''      app: %s\<newline>'' [Str (sanitizeName (unicode_ToLower L) svc)],
      Fprintf ''  policyTypes:\<newline>'' [],
      Fprintf ''    - Ingress\<newline>'' [],
      Fprintf ''    - Egress\<newline>'' []]"
    by (simp add: kube_system_line_def)
  have i: "kube_system_line \<noteq> Fprintf ''  ingress:\<newline>'' []"
    and e: "kube_system_line \<noteq> Fprintf ''  egress:\<newline>'' []"
    by (simp_all add: kube_system_line_def)
  let ?I = "if IngressFor ds svc \<noteq> [] then
      Fprintf ''  ingress:\<newline>'' [] # concat (map (ingress_calls L) (IngressFor ds svc))
    else []"
  let ?E = "if EgressFor ds svc \<noteq> [] then
      Fprintf ''  egress:\<newline>'' [] # concat (map (egress_calls L) (EgressFor ds svc))
        @ dns_egress
    else []"
  have ki: "kube_system_line \<notin> set ?I"
    using i kube_not_in_ingress [of L "IngressFor ds svc"] by auto
  have ke: "kube_system_line \<in> set ?E \<longleftrightarrow> EgressFor ds svc \<noteq> []"
    using kube_in_dns_egress by auto
  have "set (service_policy L ds svc) = set
     [Fprintf ''apiVersion: networking.k8s.io/v1\<newline>'' [],
      Fprintf ''kind: NetworkPolicy\<newline>'' [],
      Fprintf ''metadata:\<newline>'' [],
      Fprintf ''  name: %s-netpol\<newline>'' [Str (sanitizeName (unicode_ToLower L) svc)],
      Fprintf ''  labels:\<newline>'' [],
      Fprintf ''    generated-by: segspec\<newline>'' [],
      Fprintf ''spec:\<newline>'' [],
      Fprintf ''  podSelector:\<newline>'' [],
      Fprintf ''    matchLabels:\<newline>'' [],
      Fprintf ''      app: %s\<newline>'' [Str (sanitizeName (unicode_ToLower L) svc)],
      Fprintf ''  policyTypes:\<newline>'' [],
      Fprintf ''    - Ingress\<newline>'' [],
      Fprintf ''    - Egress\<newline>'' []] \<union> set ?I \<union> set ?E"
    unfolding service_policy_def Let_def set_append by (rule Un_assoc [symmetric])
  with h ki ke show ?thesis
    by blast
qed

lemma set_add_service: "set (add_service names s) = set names \<union> {x. x = s \<and> s \<noteq> []}"
  by (auto simp: add_service_def)

lemma set_service_loop:
  "set (foldl (\<lambda>names dep. add_service (add_service names (Source dep)) (Target dep)) init xs)
   = set init \<union> {s. s \<noteq> [] \<and> (\<exists>d \<in> set xs. Source d = s \<or> Target d = s)}"
proof (induction xs arbitrary: init)
  case Nil
  show ?case by simp
next
  case (Cons x xs)
  show ?case
    unfolding foldl_Cons Cons.IH set_add_service by auto
qed

lemma set_serviceList:
  "set (serviceList xs) = {s. s \<noteq> [] \<and> (\<exists>d \<in> set xs. Source d = s \<or> Target d = s)}"
  by (simp add: serviceList_def set_service_loop)

lemma service_policy_in_policies:
  "svc \<in> set svcs \<Longrightarrow> \<exists>pre post. policies L ds first svcs = pre @ service_policy L ds svc @ post"
proof (induction svcs arbitrary: first)
  case Nil
  then show ?case by simp
next
  case (Cons a svcs)
  show ?case
  proof (cases "svc = a")
    case True
    have "policies L ds first (a # svcs)
        = (if first then [] else [Fprintf ''---\<newline>'' []]) @ service_policy L ds svc
          @ policies L ds False svcs"
      by (simp add: True)
    then show ?thesis by blast
  next
    case False
    with Cons.prems have "svc \<in> set svcs" by simp
    from Cons.IH [OF this, of False] obtain pre post where
      "policies L ds False svcs = pre @ service_policy L ds svc @ post"
      by blast
    then have "policies L ds first (a # svcs)
        = ((if first then [] else [Fprintf ''---\<newline>'' []]) @ service_policy L ds a @ pre)
          @ service_policy L ds svc @ post"
      by simp
    then show ?thesis by blast
  qed
qed

lemma service_policy_tail:
  "EgressFor ds svc \<noteq> [] \<Longrightarrow> \<exists>body. service_policy L ds svc = body @ dns_egress"
proof -
  assume e: "EgressFor ds svc \<noteq> []"
  let ?h = "[Fprintf ''apiVersion: networking.k8s.io/v1\<newline>'' [],
      Fprintf ''kind: NetworkPolicy\<newline>'' [],
      Fprintf ''metadata:\<newline>'' [],
      Fprintf ''  name: %s-netpol\<newline>'' [Str (sanitizeName (unicode_ToLower L) svc)],
      Fprintf ''  labels:\<newline>'' [],
      Fprintf ''    generated-by: segspec\<newline>'' [],
      Fprintf ''spec:\<newline>'' [],
      Fprintf ''  podSelector:\<newline>'' [],
      Fprintf ''    matchLabels:\<newline>'' [],
      Fprintf ''      app: %s\<newline>'' [Str (sanitizeName (unicode_ToLower L) svc)],
      Fprintf ''  policyTypes:\<newline>'' [],
      Fprintf ''    - Ingress\<newline>'' [],
      Fprintf ''    - Egress\<newline>'' []]"
  let ?I = "if IngressFor ds svc \<noteq> [] then
      Fprintf ''  ingress:\<newline>'' [] # concat (map (ingress_calls L) (IngressFor ds svc))
    else []"
  have "service_policy L ds svc = (?h @ ?I @ Fprintf ''  egress:\<newline>'' []
      # concat (map (egress_calls L) (EgressFor ds svc))) @ dns_egress"
    using e by (simp add: service_policy_def Let_def)
  then show ?thesis by blast
qed

lemma sanitizeName_web: "sanitizeName (\<lambda>r. r) ''web'' = ''web''"
  by (simp add: sanitizeName_def runes_def ToLower_rune_def sanitize_rune_def Trim_def
      TrimLeft_def TrimRight_def char_of_eq_iff)

lemma EgressFor_ex_depends_on_set: "EgressFor ex_depends_on_set ''web'' = [ex_depends_on]"
  by (simp add: EgressFor_def sort_Slice_by_Key_def ex_depends_on_set_def deps_Add_New
      ex_depends_on_def)

lemma IngressFor_ex_depends_on_set: "IngressFor ex_depends_on_set ''web'' = []"
  by (simp add: IngressFor_def sort_Slice_by_Key_def ex_depends_on_set_def deps_Add_New
      ex_depends_on_def)

text \<open>
  The claim as stated asks for another egress rule. The service \<open>web\<close> whose only
  egress fact is a \<open>depends_on\<close> fact with port 0 gets an \<open>egress:\<close> section that holds
  the DNS rule and nothing else.
\<close>

theorem dns_rule_without_egress_rule:
  "EgressFor ex_depends_on_set ''web'' = [ex_depends_on] \<and> Port ex_depends_on \<le> 0
   \<and> service_policy ex_lib ex_depends_on_set ''web'' =
     [Fprintf ''apiVersion: networking.k8s.io/v1\<newline>'' [],
      Fprintf ''kind: NetworkPolicy\<newline>'' [],
      Fprintf ''metadata:\<newline>'' [],
      Fprintf ''  name: %s-netpol\<newline>'' [Str ''web''],
      Fprintf ''  labels:\<newline>'' [],
      Fprintf ''    generated-by: segspec\<newline>'' [],
      Fprintf ''spec:\<newline>'' [],
      Fprintf ''  podSelector:\<newline>'' [],
      Fprintf ''    matchLabels:\<newline>'' [],
      Fprintf ''      app: %s\<newline>'' [Str ''web''],
      Fprintf ''  policyTypes:\<newline>'' [],
      Fprintf ''    - Ingress\<newline>'' [],
      Fprintf ''    - Egress\<newline>'' [],
      Fprintf ''  egress:\<newline>'' []] @ dns_egress"
proof -
  have "Port ex_depends_on \<le> 0"
    by (simp add: ex_depends_on_def)
  moreover have "egress_calls ex_lib ex_depends_on = []"
    by (simp add: egress_calls_def ex_depends_on_def)
  moreover have "unicode_ToLower ex_lib = (\<lambda>r. r)"
    by (simp add: ex_lib_def)
  ultimately show ?thesis
    by (simp add: service_policy_def Let_def EgressFor_ex_depends_on_set
        IngressFor_ex_depends_on_set sanitizeName_web)
qed

lemma egress_not_in_selector: "egress_line \<notin> set (renderIngressFrom L name)"
  by (simp add: egress_line_def renderIngressFrom_def render_selector_def Let_def)

lemma egress_not_in_ports: "egress_line \<notin> set (render_ports L p proto)"
  by (simp add: egress_line_def render_ports_def Let_def)

lemma egress_not_in_ingress: "egress_line \<notin> set (concat (map (ingress_calls L) ds))"
  by (induction ds)
    (simp_all add: ingress_calls_def egress_not_in_selector egress_not_in_ports)

lemma egress_calls_no_port:
  "\<forall>d \<in> set xs. Port d \<le> 0 \<Longrightarrow> concat (map (egress_calls L) xs) = []"
  by (induction xs) (simp_all add: egress_calls_def)

lemma service_policy_sections:
  "\<exists>body. egress_line \<notin> set body
     \<and> service_policy L ds svc = body @
         (if EgressFor ds svc \<noteq> [] then
            egress_line # concat (map (egress_calls L) (EgressFor ds svc)) @ dns_egress
          else [])"
proof -
  let ?h = "[Fprintf ''apiVersion: networking.k8s.io/v1\<newline>'' [],
      Fprintf ''kind: NetworkPolicy\<newline>'' [],
      Fprintf ''metadata:\<newline>'' [],
      Fprintf ''  name: %s-netpol\<newline>'' [Str (sanitizeName (unicode_ToLower L) svc)],
      Fprintf ''  labels:\<newline>'' [],
      Fprintf ''    generated-by: segspec\<newline>'' [],
      Fprintf ''spec:\<newline>'' [],
      Fprintf ''  podSelector:\<newline>'' [],
      Fprintf ''    matchLabels:\<newline>'' [],
      Fprintf ''      app: %s\<newline>'' [Str (sanitizeName (unicode_ToLower L) svc)],
      Fprintf ''  policyTypes:\<newline>'' [],
      Fprintf ''    - Ingress\<newline>'' [],
      Fprintf ''    - Egress\<newline>'' []]"
  let ?I = "if IngressFor ds svc \<noteq> [] then
      Fprintf ''  ingress:\<newline>'' [] # concat (map (ingress_calls L) (IngressFor ds svc))
    else []"
  have h: "egress_line \<notin> set ?h"
    by (simp add: egress_line_def)
  have "egress_line \<noteq> Fprintf ''  ingress:\<newline>'' []"
    by (simp add: egress_line_def)
  then have i: "egress_line \<notin> set ?I"
    using egress_not_in_ingress [of L "IngressFor ds svc"] by auto
  have b: "egress_line \<notin> set (?h @ ?I)"
    using h i unfolding set_append by blast
  have "service_policy L ds svc = (?h @ ?I) @
         (if EgressFor ds svc \<noteq> [] then
            egress_line # concat (map (egress_calls L) (EgressFor ds svc)) @ dns_egress
          else [])"
    by (simp add: service_policy_def Let_def egress_line_def)
  with b show ?thesis
    by blast
qed

text \<open>
  C6 (amended). The policy of a service holds the DNS egress rule (port 53 over UDP and
  TCP to \<open>kube-system\<close>) exactly when the set stores a fact whose source is the service,
  whatever the port of that fact. Then the policy ends with its egress section: the line
  \<open>egress:\<close>, the rules of the egress facts that have a port, and the DNS rule last. When
  all the egress facts of the service have port 0 or less, the egress section is the line
  \<open>egress:\<close> and the DNS rule alone. A service that is the source of no fact gets no
  egress section and no DNS rule. The policy of every service named by a stored fact is a
  part of the output of \<open>PerServiceNetworkPolicy\<close>.
\<close>

theorem dns_egress_iff_egress_fact:
  "(kube_system_line \<in> set (service_policy L ds svc) \<longleftrightarrow> (\<exists>d \<in> set (deps ds). Source d = svc))
   \<and> ((\<exists>d \<in> set (deps ds). Source d = svc) \<longrightarrow>
        (\<exists>body. egress_line \<notin> set body
           \<and> service_policy L ds svc =
               body @ egress_line # concat (map (egress_calls L) (EgressFor ds svc)) @ dns_egress))
   \<and> ((\<exists>d \<in> set (deps ds). Source d = svc)
        \<and> (\<forall>d \<in> set (deps ds). Source d = svc \<longrightarrow> Port d \<le> 0) \<longrightarrow>
        (\<exists>body. egress_line \<notin> set body
           \<and> service_policy L ds svc = body @ egress_line # dns_egress))
   \<and> (\<not> (\<exists>d \<in> set (deps ds). Source d = svc) \<longrightarrow>
        egress_line \<notin> set (service_policy L ds svc)
        \<and> kube_system_line \<notin> set (service_policy L ds svc))
   \<and> (svc \<noteq> [] \<and> (\<exists>d \<in> set (deps ds). Source d = svc \<or> Target d = svc) \<longrightarrow>
        (\<exists>pre post. PerServiceNetworkPolicy L ds = pre @ service_policy L ds svc @ post))"
proof -
  have eg: "EgressFor ds svc \<noteq> [] \<longleftrightarrow> (\<exists>d \<in> set (deps ds). Source d = svc)"
    using set_EgressFor [of ds svc] by (auto simp: set_empty [symmetric] simp del: set_empty)
  from service_policy_sections [of L ds svc] obtain body where
    nb: "egress_line \<notin> set body"
    and sp: "service_policy L ds svc = body @
         (if EgressFor ds svc \<noteq> [] then
            egress_line # concat (map (egress_calls L) (EgressFor ds svc)) @ dns_egress
          else [])"
    by blast
  have a: "kube_system_line \<in> set (service_policy L ds svc)
      \<longleftrightarrow> (\<exists>d \<in> set (deps ds). Source d = svc)"
    using kube_in_service_policy [of L ds svc] eg by simp
  have b: "\<exists>body. egress_line \<notin> set body
           \<and> service_policy L ds svc =
               body @ egress_line # concat (map (egress_calls L) (EgressFor ds svc)) @ dns_egress"
    if "\<exists>d \<in> set (deps ds). Source d = svc"
  proof -
    from that eg have "EgressFor ds svc \<noteq> []"
      by simp
    with sp have "service_policy L ds svc =
        body @ egress_line # concat (map (egress_calls L) (EgressFor ds svc)) @ dns_egress"
      by simp
    with nb show ?thesis
      by blast
  qed
  have c: "\<exists>body. egress_line \<notin> set body
           \<and> service_policy L ds svc = body @ egress_line # dns_egress"
    if "(\<exists>d \<in> set (deps ds). Source d = svc)
        \<and> (\<forall>d \<in> set (deps ds). Source d = svc \<longrightarrow> Port d \<le> 0)"
  proof -
    from that eg have ne: "EgressFor ds svc \<noteq> []"
      by simp
    from that have "\<forall>d \<in> set (EgressFor ds svc). Port d \<le> 0"
      by (simp add: set_EgressFor)
    then have "concat (map (egress_calls L) (EgressFor ds svc)) = []"
      by (rule egress_calls_no_port)
    with sp ne have "service_policy L ds svc = body @ egress_line # dns_egress"
      by simp
    with nb show ?thesis
      by blast
  qed
  have d: "egress_line \<notin> set (service_policy L ds svc)
        \<and> kube_system_line \<notin> set (service_policy L ds svc)"
    if "\<not> (\<exists>d \<in> set (deps ds). Source d = svc)"
  proof -
    from that eg have "EgressFor ds svc = []"
      by simp
    with sp have "service_policy L ds svc = body"
      by simp
    with nb a that show ?thesis
      by simp
  qed
  have e: "\<exists>pre post. PerServiceNetworkPolicy L ds = pre @ service_policy L ds svc @ post"
    if "svc \<noteq> [] \<and> (\<exists>d \<in> set (deps ds). Source d = svc \<or> Target d = svc)"
  proof -
    from that have "svc \<in> set (serviceList (Dependencies ds))"
      by (simp add: set_serviceList set_Dependencies)
    moreover from that have "Dependencies ds \<noteq> []"
      using set_Dependencies [of ds] by (auto simp: set_empty [symmetric] simp del: set_empty)
    ultimately show ?thesis
      using service_policy_in_policies [of svc "serviceList (Dependencies ds)" L ds True]
      by (simp add: PerServiceNetworkPolicy_def Let_def)
  qed
  from a b c d e show ?thesis
    by blast
qed

text \<open>
  The theorem at the set that holds the \<open>depends_on\<close> fact alone: \<open>web\<close> is the source of
  a fact with port 0 and gets the line \<open>egress:\<close> followed by the DNS rule, \<open>db\<close> is the
  source of none and gets neither.
\<close>

theorem dns_egress_iff_egress_fact_witness:
  "(\<exists>d \<in> set (deps ex_depends_on_set). Source d = ''web'')
   \<and> map Port (deps ex_depends_on_set) = [0]
   \<and> kube_system_line \<in> set (service_policy ex_lib ex_depends_on_set ''web'')
   \<and> (\<exists>body. egress_line \<notin> set body
        \<and> service_policy ex_lib ex_depends_on_set ''web'' = body @ egress_line # dns_egress)
   \<and> (\<exists>pre post. PerServiceNetworkPolicy ex_lib ex_depends_on_set
         = pre @ service_policy ex_lib ex_depends_on_set ''web'' @ post)
   \<and> \<not> (\<exists>d \<in> set (deps ex_depends_on_set). Source d = ''db'')
   \<and> egress_line \<notin> set (service_policy ex_lib ex_depends_on_set ''db'')
   \<and> kube_system_line \<notin> set (service_policy ex_lib ex_depends_on_set ''db'')"
proof -
  have d: "deps ex_depends_on_set = [ex_depends_on]"
    by (simp add: ex_depends_on_set_def deps_Add_New)
  have w: "\<exists>d \<in> set (deps ex_depends_on_set). Source d = ''web''"
    by (simp add: d ex_depends_on_def)
  have p0: "map Port (deps ex_depends_on_set) = [0]"
    by (simp add: d ex_depends_on_def)
  have p: "\<forall>d \<in> set (deps ex_depends_on_set). Source d = ''web'' \<longrightarrow> Port d \<le> 0"
    by (simp add: d ex_depends_on_def)
  have n: "\<not> (\<exists>d \<in> set (deps ex_depends_on_set). Source d = ''db'')"
    by (simp add: d ex_depends_on_def)
  note t1 = dns_egress_iff_egress_fact [of ex_lib ex_depends_on_set "''web''"]
  note t2 = dns_egress_iff_egress_fact [of ex_lib ex_depends_on_set "''db''"]
  have w': "''web'' \<noteq> [] \<and> (\<exists>d \<in> set (deps ex_depends_on_set).
      Source d = ''web'' \<or> Target d = ''web'')"
    by (simp add: d ex_depends_on_def)
  from t1 w have 1: "kube_system_line \<in> set (service_policy ex_lib ex_depends_on_set ''web'')"
    by blast
  from t1 w p have 2: "\<exists>body. egress_line \<notin> set body
        \<and> service_policy ex_lib ex_depends_on_set ''web'' = body @ egress_line # dns_egress"
    by blast
  from t1 w' have 3: "\<exists>pre post. PerServiceNetworkPolicy ex_lib ex_depends_on_set
         = pre @ service_policy ex_lib ex_depends_on_set ''web'' @ post"
    by blast
  from t2 n have 4: "egress_line \<notin> set (service_policy ex_lib ex_depends_on_set ''db'')"
    by blast
  from t2 n have 5: "kube_system_line \<notin> set (service_policy ex_lib ex_depends_on_set ''db'')"
    by blast
  from w p0 1 2 3 n 4 5 show ?thesis
    by (intro conjI)
qed

section \<open>Properties of the dependency model on a store of arrays\<close>

text \<open>
  The set itself, the struct that holds the header of \<open>deps\<close> and the map \<open>seen\<close>, is not
  an array: no slice points to it, and only the arrays that the slices share are in the
  store. The frame properties are stated with \<open>fresh_from\<close> and \<open>keeps\<close>: what is done
  through a slice whose array was allocated at address \<open>n\<close> or later leaves the first \<open>n\<close>
  arrays of the store as they were.
\<close>

lemma cells_nil: "cells h nil_slice = []"
  by (simp add: cells_def nil_slice_def)

lemma valid_nil: "valid_slice h nil_slice"
  by (simp add: valid_slice_def nil_slice_def)

lemma fresh_nil: "fresh_from n nil_slice"
  by (simp add: fresh_from_def nil_slice_def)

lemma length_cells: "valid_slice h s \<Longrightarrow> length (cells h s) = sl_len s"
  by (auto simp: valid_slice_def cells_def split: option.splits)

lemma keeps_refl: "n \<le> length h \<Longrightarrow> keeps n h h"
  by (simp add: keeps_def)

lemma keeps_trans: "keeps n h h1 \<Longrightarrow> keeps n h1 h2 \<Longrightarrow> keeps n h h2"
  by (simp add: keeps_def)

lemma keeps_nth: "keeps n h h' \<Longrightarrow> a < n \<Longrightarrow> h' ! a = h ! a"
proof -
  assume k: "keeps n h h'" and a: "a < n"
  have "h' ! a = take n h' ! a"
    using a by simp
  also have "\<dots> = h ! a"
    using k a by (simp add: keeps_def)
  finally show ?thesis .
qed

lemma keeps_update: "n \<le> length h \<Longrightarrow> n \<le> a \<Longrightarrow> keeps n h (h[a := x])"
  by (simp add: keeps_def)

lemma keeps_alloc: "n \<le> length h \<Longrightarrow> keeps n h (h @ [x])"
  by (simp add: keeps_def)

lemma cells_keeps:
  assumes "keeps n h h'" and "valid_slice h s" and "n = length h"
  shows "cells h' s = cells h s"
proof (cases "sl_array s")
  case None
  then show ?thesis by (simp add: cells_def)
next
  case (Some a)
  then have "a < n"
    using assms(2,3) by (simp add: valid_slice_def)
  then have "h' ! a = h ! a"
    using assms(1) by (rule keeps_nth [rotated])
  then show ?thesis
    by (simp add: cells_def Some)
qed

lemma valid_keeps:
  assumes "keeps n h h'" and "valid_slice h s" and "n = length h"
  shows "valid_slice h' s"
proof (cases "sl_array s")
  case None
  then show ?thesis using assms(2) by (simp add: valid_slice_def)
next
  case (Some a)
  then have a: "a < n"
    using assms(2,3) by (simp add: valid_slice_def)
  then have "h' ! a = h ! a"
    using assms(1) by (rule keeps_nth [rotated])
  moreover have "a < length h'"
    using a assms(1) by (simp add: keeps_def)
  ultimately show ?thesis
    using assms(2) Some by (simp add: valid_slice_def)
qed

subsection \<open>The primitives\<close>

lemma write_cells_keeps:
  "fresh_from n s \<Longrightarrow> n \<le> length h \<Longrightarrow> keeps n h (write_cells h s xs)"
  by (auto simp: write_cells_def fresh_from_def keeps_def split: option.splits)

lemma cells_write_cells:
  assumes "valid_slice h s" and "length xs = sl_len s"
  shows "cells (write_cells h s xs) s = xs"
proof (cases "sl_array s")
  case None
  then show ?thesis
    using assms by (simp add: cells_def valid_slice_def)
next
  case (Some a)
  define A where "A = h ! a"
  have a: "a < length h" and o: "sl_off s \<le> length A"
    using assms(1) Some by (simp_all add: valid_slice_def A_def)
  have "cells (write_cells h s xs) s
      = take (sl_len s) (drop (sl_off s) (take (sl_off s) A @ xs @ drop (sl_off s + length xs) A))"
    using a by (simp add: cells_def write_cells_def Some A_def)
  also have "\<dots> = take (sl_len s) (xs @ drop (sl_off s + length xs) A)"
    using o by simp
  also have "\<dots> = xs"
    using assms(2) by simp
  finally show ?thesis .
qed

lemma valid_write_cells:
  assumes "valid_slice h s" and "length xs = sl_len s"
  shows "valid_slice (write_cells h s xs) s"
proof (cases "sl_array s")
  case None
  then show ?thesis
    using assms by (simp add: write_cells_def)
next
  case (Some a)
  have a: "a < length h" and o: "sl_off s + sl_cap s \<le> length (h ! a)" and l: "sl_len s \<le> sl_cap s"
    using assms(1) Some by (simp_all add: valid_slice_def)
  show ?thesis
    using a o l assms(2) by (simp add: valid_slice_def write_cells_def Some)
qed

lemma length_sort_cells: "length (sort_key cell_Key xs) = length xs"
  by simp

lemma cells_sort_Slice:
  "valid_slice h s \<Longrightarrow> cells (sort_Slice h s) s = sort_key cell_Key (cells h s)"
  unfolding sort_Slice_def by (rule cells_write_cells) (simp_all add: length_cells)

lemma sort_Slice_keeps: "fresh_from n s \<Longrightarrow> n \<le> length h \<Longrightarrow> keeps n h (sort_Slice h s)"
  unfolding sort_Slice_def by (rule write_cells_keeps)

lemma append_slice_keeps:
  assumes "append_slice grow h s v = (s', h')" and "fresh_from n s" and "n \<le> length h"
  shows "fresh_from n s' \<and> keeps n h h'"
proof (cases "\<exists>a. sl_array s = Some a \<and> sl_len s < sl_cap s")
  case True
  then obtain a where a: "sl_array s = Some a" and r: "sl_len s < sl_cap s"
    by blast
  have s': "s' = s\<lparr>sl_len := sl_len s + 1\<rparr>"
    and h': "h' = h[a := (h ! a)[sl_off s + sl_len s := v]]"
    using assms(1) a r by (simp_all add: append_slice_def)
  have "n \<le> a"
    using assms(2) a by (simp add: fresh_from_def)
  then show ?thesis
    using assms(2,3) by (simp add: s' h' fresh_from_def keeps_update)
next
  case False
  define k where "k = max (grow (sl_cap s)) (sl_len s + 1)"
  have "append_slice grow h s v
      = (\<lparr>sl_array = Some (length h), sl_off = 0, sl_len = sl_len s + 1, sl_cap = k\<rparr>,
         h @ [cells h s @ [v] @ replicate (k - (sl_len s + 1)) None])"
    using False by (auto simp: append_slice_def Let_def k_def split: option.splits bool.splits)
  with assms(1) have
    s': "s' = \<lparr>sl_array = Some (length h), sl_off = 0, sl_len = sl_len s + 1, sl_cap = k\<rparr>"
    and h': "h' = h @ [cells h s @ [v] @ replicate (k - (sl_len s + 1)) None]"
    by simp_all
  show ?thesis
    using assms(3) by (simp add: s' h' fresh_from_def keeps_alloc)
qed

lemma append_slice_cells:
  assumes "append_slice grow h s v = (s', h')" and "valid_slice h s"
  shows "valid_slice h' s' \<and> cells h' s' = cells h s @ [v]"
proof (cases "\<exists>a. sl_array s = Some a \<and> sl_len s < sl_cap s")
  case True
  then obtain a where a: "sl_array s = Some a" and r: "sl_len s < sl_cap s"
    by blast
  define A where "A = h ! a"
  have s': "s' = s\<lparr>sl_len := sl_len s + 1\<rparr>"
    and h': "h' = h[a := A[sl_off s + sl_len s := v]]"
    using assms(1) a r by (simp_all add: append_slice_def A_def)
  have al: "a < length h" and o: "sl_off s + sl_cap s \<le> length A"
    using assms(2) a by (simp_all add: valid_slice_def A_def)
  define B where "B = drop (sl_off s) A"
  have lB: "sl_len s < length B"
    using o r by (simp add: B_def)
  have "cells h' s' = take (Suc (sl_len s)) (drop (sl_off s) (A[sl_off s + sl_len s := v]))"
    using al by (simp add: cells_def s' h' a)
  also have "drop (sl_off s) (A[sl_off s + sl_len s := v]) = B[sl_len s := v]"
    by (simp add: drop_update_swap B_def)
  also have "take (Suc (sl_len s)) (B[sl_len s := v]) = take (sl_len s) B @ [v]"
    using lB by (simp add: take_Suc_conv_app_nth)
  also have "take (sl_len s) B = cells h s"
    by (simp add: cells_def a B_def A_def)
  finally have c: "cells h' s' = cells h s @ [v]" .
  have "valid_slice h' s'"
    using al o r a by (simp add: valid_slice_def s' h')
  with c show ?thesis by simp
next
  case False
  define k where "k = max (grow (sl_cap s)) (sl_len s + 1)"
  have "append_slice grow h s v
      = (\<lparr>sl_array = Some (length h), sl_off = 0, sl_len = sl_len s + 1, sl_cap = k\<rparr>,
         h @ [cells h s @ [v] @ replicate (k - (sl_len s + 1)) None])"
    using False by (auto simp: append_slice_def Let_def k_def split: option.splits bool.splits)
  with assms(1) have
    s': "s' = \<lparr>sl_array = Some (length h), sl_off = 0, sl_len = sl_len s + 1, sl_cap = k\<rparr>"
    and h': "h' = h @ [cells h s @ [v] @ replicate (k - (sl_len s + 1)) None]"
    by simp_all
  have l: "length (cells h s) = sl_len s"
    using assms(2) by (rule length_cells)
  have k: "sl_len s + 1 \<le> k"
    by (simp add: k_def)
  have c: "cells h' s' = cells h s @ [v]"
    using l by (simp add: cells_def s' h')
  have "valid_slice h' s'"
    using l k by (simp add: valid_slice_def s' h')
  with c show ?thesis by simp
qed

subsection \<open>What a caller does with a fresh slice\<close>

lemma mutate_keeps:
  assumes "mutate grow m (s, h) = Some (s', h')" and "fresh_from n s" and "n \<le> length h"
  shows "fresh_from n s' \<and> keeps n h h'"
proof (cases m)
  case (Assign i v)
  with assms(1) obtain a where a: "sl_array s = Some a" and s': "s' = s"
    and h': "h' = h[a := (h ! a)[sl_off s + i := v]]"
    by (auto split: option.splits if_splits)
  from assms(2) a have "n \<le> a"
    by (simp add: fresh_from_def)
  then show ?thesis
    using assms(2,3) by (simp add: s' h' keeps_update)
next
  case (Append v)
  with assms(1) have "append_slice grow h s v = (s', h')"
    by simp
  then show ?thesis
    using assms(2,3) by (rule append_slice_keeps)
next
  case (Reslice lo hi)
  with assms(1) have "s' = s\<lparr>sl_off := sl_off s + lo, sl_len := hi - lo, sl_cap := sl_cap s - lo\<rparr>"
    and "h' = h"
    by (auto split: if_splits)
  then show ?thesis
    using assms(2,3) by (simp add: fresh_from_def keeps_refl)
qed

lemma mutations_keeps:
  "mutations grow ms (s, h) = Some (s', h') \<Longrightarrow> fresh_from n s \<Longrightarrow> n \<le> length h \<Longrightarrow>
   fresh_from n s' \<and> keeps n h h'"
proof (induction ms arbitrary: s h)
  case Nil
  then show ?case by (simp add: keeps_refl)
next
  case (Cons m ms)
  from Cons.prems(1) obtain s1 h1 where
    1: "mutate grow m (s, h) = Some (s1, h1)" and 2: "mutations grow ms (s1, h1) = Some (s', h')"
    by (auto split: option.splits)
  from mutate_keeps [OF 1 Cons.prems(2,3)] have f1: "fresh_from n s1" and k1: "keeps n h h1"
    by simp_all
  from k1 have "n \<le> length h1"
    by (simp add: keeps_def)
  from Cons.IH [OF 2 f1 this] have "fresh_from n s'" and "keeps n h1 h'"
    by simp_all
  with k1 show ?case
    by (simp add: keeps_trans)
qed

subsection \<open>The three queries\<close>

lemma Dependencies_s_result:
  assumes "valid_slice h (deps_s ds)"
  shows "fresh_from (length h) (fst (Dependencies_s h ds))
     \<and> keeps (length h) h (snd (Dependencies_s h ds))
     \<and> contents (Dependencies_s h ds) = sort_key cell_Key (cells h (deps_s ds))"
proof -
  define n where "n = sl_len (deps_s ds)"
  define sorted where "sorted = \<lparr>sl_array = Some (length h), sl_off = 0, sl_len = n, sl_cap = n\<rparr>"
  define h1 where "h1 = h @ [replicate n (None :: cell)]"
  define h2 where "h2 = copy_slice h1 sorted (deps_s ds)"
  define h3 where "h3 = sort_Slice h2 sorted"
  have D: "Dependencies_s h ds = (sorted, h3)"
    by (simp add: Dependencies_s_def make_slice_def Let_def sorted_def h1_def h2_def h3_def n_def)
  have f: "fresh_from (length h) sorted"
    by (simp add: fresh_from_def sorted_def)
  have k1: "keeps (length h) h h1"
    unfolding h1_def by (rule keeps_alloc) simp
  have v1: "valid_slice h1 sorted"
    by (simp add: valid_slice_def sorted_def h1_def)
  have l1: "length h \<le> length h1"
    by (simp add: h1_def)
  have c1: "cells h1 (deps_s ds) = cells h (deps_s ds)"
    using k1 assms by (rule cells_keeps) simp
  have len: "length (cells h (deps_s ds)) = n"
    unfolding n_def using assms by (rule length_cells)
  have h2': "h2 = write_cells h1 sorted (cells h (deps_s ds))"
    using len by (simp add: h2_def copy_slice_def c1 sorted_def n_def)
  have ls: "length (cells h (deps_s ds)) = sl_len sorted"
    using len by (simp add: sorted_def)
  have c2: "cells h2 sorted = cells h (deps_s ds)"
    unfolding h2' using v1 ls by (rule cells_write_cells)
  have v2: "valid_slice h2 sorted"
    unfolding h2' using v1 ls by (rule valid_write_cells)
  have k2: "keeps (length h) h1 h2"
    unfolding h2' using f l1 by (rule write_cells_keeps)
  have l2: "length h \<le> length h2"
    using k2 by (simp add: keeps_def)
  have c3: "cells h3 sorted = sort_key cell_Key (cells h (deps_s ds))"
    unfolding h3_def using cells_sort_Slice [OF v2] c2 by simp
  have k3: "keeps (length h) h2 h3"
    unfolding h3_def using f l2 by (rule sort_Slice_keeps)
  have "keeps (length h) h h3"
    using k1 k2 k3 by (blast intro: keeps_trans)
  with f c3 show ?thesis
    by (simp add: D contents_def)
qed

lemma collect_loop:
  assumes "valid_slice h src" and "k \<le> sl_len src"
  shows "fresh_from (length h) (fst (foldl (collect_step grow keep src) (nil_slice, h) [0..<k]))
     \<and> keeps (length h) h (snd (foldl (collect_step grow keep src) (nil_slice, h) [0..<k]))
     \<and> valid_slice (snd (foldl (collect_step grow keep src) (nil_slice, h) [0..<k]))
          (fst (foldl (collect_step grow keep src) (nil_slice, h) [0..<k]))
     \<and> contents (foldl (collect_step grow keep src) (nil_slice, h) [0..<k])
        = filter keep (take k (cells h src))"
  using assms(2)
proof (induction k)
  case 0
  show ?case
    by (simp add: fresh_nil keeps_refl valid_nil contents_def cells_nil)
next
  case (Suc k)
  define st where "st = foldl (collect_step grow keep src) (nil_slice, h) [0..<k]"
  from Suc have f: "fresh_from (length h) (fst st)" and kp: "keeps (length h) h (snd st)"
    and v: "valid_slice (snd st) (fst st)"
    and c: "cells (snd st) (fst st) = filter keep (take k (cells h src))"
    by (simp_all add: st_def contents_def)
  have lk: "k < length (cells h src)"
    using Suc.prems length_cells [OF assms(1)] by simp
  have l: "length h \<le> length (snd st)"
    using kp by (simp add: keeps_def)
  have "cells (snd st) src = cells h src"
    using kp assms(1) by (rule cells_keeps) simp
  then have dep: "index_slice (snd st) src k = cells h src ! k"
    by (simp add: index_slice_def)
  have tk: "take (Suc k) (cells h src) = take k (cells h src) @ [cells h src ! k]"
    using lk by (rule take_Suc_conv_app_nth)
  have step: "foldl (collect_step grow keep src) (nil_slice, h) [0..<Suc k]
      = collect_step grow keep src st k"
    by (simp add: st_def)
  show ?case
  proof (cases "keep (cells h src ! k)")
    case False
    then have "collect_step grow keep src st k = st"
      by (simp add: collect_step_def dep)
    with f kp v c False show ?thesis
      unfolding step by (simp add: contents_def tk)
  next
    case True
    obtain r' h' where a: "append_slice grow (snd st) (fst st) (cells h src ! k) = (r', h')"
      by (cases "append_slice grow (snd st) (fst st) (cells h src ! k)")
    from True have e: "collect_step grow keep src st k = (r', h')"
      by (simp add: collect_step_def dep a)
    from append_slice_keeps [OF a f l] have f': "fresh_from (length h) r'"
      and k': "keeps (length h) (snd st) h'"
      by simp_all
    from append_slice_cells [OF a v] have v': "valid_slice h' r'"
      and c': "cells h' r' = cells (snd st) (fst st) @ [cells h src ! k]"
      by simp_all
    have "keeps (length h) h h'"
      using kp k' by (rule keeps_trans)
    with f' v' c' c True show ?thesis
      unfolding step e by (simp add: contents_def tk)
  qed
qed

lemma collect_result:
  assumes "valid_slice h src"
  shows "fresh_from (length h) (fst (collect grow keep h src))
     \<and> keeps (length h) h (snd (collect grow keep h src))
     \<and> contents (collect grow keep h src) = sort_key cell_Key (filter keep (cells h src))"
proof -
  define st where "st = foldl (collect_step grow keep src) (nil_slice, h) [0..<sl_len src]"
  from collect_loop [OF assms, of "sl_len src" grow keep] have
    f: "fresh_from (length h) (fst st)" and kp: "keeps (length h) h (snd st)"
    and v: "valid_slice (snd st) (fst st)"
    and c: "cells (snd st) (fst st) = filter keep (take (sl_len src) (cells h src))"
    by (simp_all add: st_def contents_def)
  have "take (sl_len src) (cells h src) = cells h src"
    using length_cells [OF assms] by simp
  with c have c': "cells (snd st) (fst st) = filter keep (cells h src)"
    by simp
  have C: "collect grow keep h src = (fst st, sort_Slice (snd st) (fst st))"
    by (simp add: collect_def st_def split_beta)
  have l: "length h \<le> length (snd st)"
    using kp by (simp add: keeps_def)
  have "keeps (length h) (snd st) (sort_Slice (snd st) (fst st))"
    using f l by (rule sort_Slice_keeps)
  with kp have k2: "keeps (length h) h (sort_Slice (snd st) (fst st))"
    by (rule keeps_trans)
  have "cells (sort_Slice (snd st) (fst st)) (fst st) = sort_key cell_Key (filter keep (cells h src))"
    using cells_sort_Slice [OF v] c' by simp
  with f k2 show ?thesis
    by (simp add: C contents_def)
qed

text \<open>
  The queries on the store return the elements that the functions on lists compute.
\<close>

lemma insort_cell_Key:
  "insort_key cell_Key (Some x) (map Some ys) = map Some (insort_key Key x ys)"
  by (induction ys) (simp_all add: cell_Key_def)

lemma sort_cell_Key: "sort_key cell_Key (map Some xs) = map Some (sort_key Key xs)"
  by (induction xs) (simp_all add: insort_cell_Key)

lemma Dependencies_s_refines:
  assumes "valid_slice h (deps_s ds)" and "cells h (deps_s ds) = map Some xs"
  shows "contents (Dependencies_s h ds)
     = map Some (Dependencies \<lparr>ServiceName = ServiceName_s ds, deps = xs, seen = seen_s ds\<rparr>)"
  using Dependencies_s_result [OF assms(1)]
  by (simp add: assms(2) sort_cell_Key Dependencies_def sort_Slice_by_Key_def)

lemma IngressFor_s_refines:
  assumes "valid_slice h (deps_s ds)" and "cells h (deps_s ds) = map Some xs"
  shows "contents (IngressFor_s grow h ds t)
     = map Some (IngressFor \<lparr>ServiceName = ServiceName_s ds, deps = xs, seen = seen_s ds\<rparr> t)"
proof -
  have "filter (\<lambda>c. cell_Target c = t) (map Some xs) = map Some (filter (\<lambda>d. Target d = t) xs)"
    by (simp add: filter_map o_def cell_Target_def)
  then show ?thesis
    using collect_result [OF assms(1), of grow "\<lambda>c. cell_Target c = t"]
    by (simp add: assms(2) sort_cell_Key IngressFor_s_def IngressFor_def sort_Slice_by_Key_def)
qed

lemma EgressFor_s_refines:
  assumes "valid_slice h (deps_s ds)" and "cells h (deps_s ds) = map Some xs"
  shows "contents (EgressFor_s grow h ds t)
     = map Some (EgressFor \<lparr>ServiceName = ServiceName_s ds, deps = xs, seen = seen_s ds\<rparr> t)"
proof -
  have "filter (\<lambda>c. cell_Source c = t) (map Some xs) = map Some (filter (\<lambda>d. Source d = t) xs)"
    by (simp add: filter_map o_def cell_Source_def)
  then show ?thesis
    using collect_result [OF assms(1), of grow "\<lambda>c. cell_Source c = t"]
    by (simp add: assms(2) sort_cell_Key EgressFor_s_def EgressFor_def sort_Slice_by_Key_def)
qed

text \<open>
  The hypothesis of the theorem holds of every set that the program builds: of a new set,
  and of a set after \<open>Add\<close>.
\<close>

lemma NewDependencySet_s_valid:
  "valid_slice (snd (NewDependencySet_s h name)) (deps_s (fst (NewDependencySet_s h name)))"
  by (simp add: NewDependencySet_s_def make_slice_def valid_slice_def)

lemma Add_s_valid:
  assumes "valid_slice h (deps_s ds)"
  shows "valid_slice (snd (Add_s grow h ds dep)) (deps_s (fst (Add_s grow h ds dep)))"
proof (cases "map_get_bool (seen_s ds) (Key dep)")
  case True
  then show ?thesis
    using assms by (simp add: Add_s_def)
next
  case False
  obtain d h1 where a: "append_slice grow h (deps_s ds) (Some dep) = (d, h1)"
    by (cases "append_slice grow h (deps_s ds) (Some dep)")
  from append_slice_cells [OF a assms] have "valid_slice h1 d"
    by simp
  with False a show ?thesis
    by (simp add: Add_s_def)
qed

lemma deps_s_ex_set_s:
  "deps_s ex_set_s = \<lparr>sl_array = Some 0, sl_off = 0, sl_len = 2, sl_cap = 4\<rparr>"
  by (simp add: ex_set_s_def)

lemma Key_ex_kafka_less: "Key ex_kafka < Key ex_zookeeper"
  by (simp add: Key_def ex_kafka_def ex_zookeeper_def)

lemma sort_ex_cells:
  "sort_key cell_Key [Some ex_zookeeper, Some ex_kafka] = [Some ex_kafka, Some ex_zookeeper]"
proof -
  have "\<not> cell_Key (Some ex_zookeeper) \<le> cell_Key (Some ex_kafka)"
    using Key_ex_kafka_less by (simp add: cell_Key_def not_le)
  then show ?thesis
    by simp
qed

lemma Dependencies_s_ex:
  "Dependencies_s ex_store ex_set_s =
     (\<lparr>sl_array = Some 1, sl_off = 0, sl_len = 2, sl_cap = 2\<rparr>,
      [[Some ex_zookeeper, Some ex_kafka, None, None], [Some ex_kafka, Some ex_zookeeper]])"
proof -
  define S where "S = \<lparr>sl_array = Some 1, sl_off = 0, sl_len = 2, sl_cap = 2\<rparr>"
  have 1: "make_slice ex_store (sl_len (deps_s ex_set_s)) = (S, ex_store @ [[None, None]])"
    by (simp add: make_slice_def deps_s_ex_set_s ex_store_def S_def numeral_2_eq_2)
  have 2: "copy_slice (ex_store @ [[None, None]]) S (deps_s ex_set_s)
      = [[Some ex_zookeeper, Some ex_kafka, None, None], [Some ex_zookeeper, Some ex_kafka]]"
    by (simp add: copy_slice_def cells_def write_cells_def deps_s_ex_set_s ex_store_def S_def)
  have 3: "sort_Slice
      [[Some ex_zookeeper, Some ex_kafka, None, None], [Some ex_zookeeper, Some ex_kafka]] S
      = [[Some ex_zookeeper, Some ex_kafka, None, None], [Some ex_kafka, Some ex_zookeeper]]"
  proof -
    have c: "cells [[Some ex_zookeeper, Some ex_kafka, None, None],
        [Some ex_zookeeper, Some ex_kafka]] S = [Some ex_zookeeper, Some ex_kafka]"
      by (simp add: cells_def S_def)
    show ?thesis
      unfolding sort_Slice_def c sort_ex_cells by (simp add: write_cells_def S_def)
  qed
  show ?thesis
    unfolding Dependencies_s_def 1 by (simp add: 2 3) (simp add: S_def)
qed

lemma mutations_ex:
  "mutations (\<lambda>c. 2 * c) [Assign 0 (Some ex_redis), Append None]
     (\<lparr>sl_array = Some 1, sl_off = 0, sl_len = 2, sl_cap = 2\<rparr>,
      [[Some ex_zookeeper, Some ex_kafka, None, None], [Some ex_kafka, Some ex_zookeeper]])
   = Some (\<lparr>sl_array = Some 2, sl_off = 0, sl_len = 3, sl_cap = 4\<rparr>,
      [[Some ex_zookeeper, Some ex_kafka, None, None], [Some ex_redis, Some ex_zookeeper],
       [Some ex_redis, Some ex_zookeeper, None, None]])"
  by (simp add: append_slice_def cells_def Let_def)

text \<open>
  C10. \<open>Dependencies\<close>, \<open>IngressFor\<close> and \<open>EgressFor\<close> each return a fresh slice. Let \<open>r\<close>
  be the result of one of them on a set whose \<open>deps\<close> is a slice of the store, and let the
  caller assign to elements of the returned slice, append to it and reslice it, in any
  order and number, without a panic. Then the elements of \<open>deps\<close> in the store are what
  they were, \<open>Len()\<close> is still their number, and each of the three queries returns the same
  elements after the mutations as before.
\<close>

theorem queries_return_fresh_slices:
  assumes "valid_slice h (deps_s ds)"
    and "r = Dependencies_s h ds \<or> r = IngressFor_s grow h ds svc \<or> r = EgressFor_s grow h ds svc"
    and "mutations grow ms r = Some r'"
  shows "cells (snd r') (deps_s ds) = cells h (deps_s ds)
     \<and> valid_slice (snd r') (deps_s ds)
     \<and> Len_s ds = int (length (cells (snd r') (deps_s ds)))
     \<and> contents (Dependencies_s (snd r') ds) = contents (Dependencies_s h ds)
     \<and> contents (IngressFor_s grow (snd r') ds t) = contents (IngressFor_s grow h ds t)
     \<and> contents (EgressFor_s grow (snd r') ds t) = contents (EgressFor_s grow h ds t)"
proof -
  have q: "fresh_from (length h) (fst r) \<and> keeps (length h) h (snd r)"
    using assms(2) Dependencies_s_result [OF assms(1)]
      collect_result [OF assms(1), of grow "\<lambda>dep. cell_Target dep = svc"]
      collect_result [OF assms(1), of grow "\<lambda>dep. cell_Source dep = svc"]
    by (auto simp: IngressFor_s_def EgressFor_s_def)
  then have l: "length h \<le> length (snd r)"
    by (simp add: keeps_def)
  have "mutations grow ms (fst r, snd r) = Some (fst r', snd r')"
    using assms(3) by simp
  from mutations_keeps [OF this _ l] q have "keeps (length h) (snd r) (snd r')"
    by blast
  with q have k: "keeps (length h) h (snd r')"
    by (blast intro: keeps_trans)
  have c: "cells (snd r') (deps_s ds) = cells h (deps_s ds)"
    using k assms(1) by (rule cells_keeps) simp
  have v: "valid_slice (snd r') (deps_s ds)"
    using k assms(1) by (rule valid_keeps) simp
  have n: "Len_s ds = int (length (cells (snd r') (deps_s ds)))"
    using length_cells [OF v] by (simp add: Len_s_def)
  have d: "contents (Dependencies_s (snd r') ds) = contents (Dependencies_s h ds)"
    using Dependencies_s_result [OF v] Dependencies_s_result [OF assms(1)] c by simp
  have i: "contents (IngressFor_s grow (snd r') ds t) = contents (IngressFor_s grow h ds t)"
    using collect_result [OF v, of grow "\<lambda>dep. cell_Target dep = t"]
      collect_result [OF assms(1), of grow "\<lambda>dep. cell_Target dep = t"] c
    by (simp add: IngressFor_s_def)
  have e: "contents (EgressFor_s grow (snd r') ds t) = contents (EgressFor_s grow h ds t)"
    using collect_result [OF v, of grow "\<lambda>dep. cell_Source dep = t"]
      collect_result [OF assms(1), of grow "\<lambda>dep. cell_Source dep = t"] c
    by (simp add: EgressFor_s_def)
  from c v n d i e show ?thesis
    by (intro conjI)
qed

text \<open>
  The theorem at the example store: the caller overwrites the first element of the slice
  that \<open>Dependencies\<close> returned and appends the zero value, which moves the slice to a new
  array; the set still holds its two facts and \<open>Dependencies\<close> returns them again.
\<close>

theorem queries_return_fresh_slices_witness:
  "valid_slice ex_store (deps_s ex_set_s)
   \<and> cells ex_store (deps_s ex_set_s) = [Some ex_zookeeper, Some ex_kafka]
   \<and> contents (Dependencies_s ex_store ex_set_s) = [Some ex_kafka, Some ex_zookeeper]
   \<and> (\<exists>r'. mutations (\<lambda>c. 2 * c) [Assign 0 (Some ex_redis), Append None]
          (Dependencies_s ex_store ex_set_s) = Some r'
        \<and> contents r' = [Some ex_redis, Some ex_zookeeper, None]
        \<and> cells (snd r') (deps_s ex_set_s) = [Some ex_zookeeper, Some ex_kafka]
        \<and> Len_s ex_set_s = 2
        \<and> contents (Dependencies_s (snd r') ex_set_s) = [Some ex_kafka, Some ex_zookeeper]
        \<and> contents (EgressFor_s (\<lambda>c. 2 * c) (snd r') ex_set_s ''app'')
          = contents (EgressFor_s (\<lambda>c. 2 * c) ex_store ex_set_s ''app''))"
proof -
  define r' where "r' = (\<lparr>sl_array = Some 2, sl_off = 0, sl_len = 3, sl_cap = 4\<rparr>,
      [[Some ex_zookeeper, Some ex_kafka, None, None], [Some ex_redis, Some ex_zookeeper],
       [Some ex_redis, Some ex_zookeeper, None, None]])"
  have v: "valid_slice ex_store (deps_s ex_set_s)"
    by (simp add: valid_slice_def deps_s_ex_set_s ex_store_def)
  have c: "cells ex_store (deps_s ex_set_s) = [Some ex_zookeeper, Some ex_kafka]"
    by (simp add: cells_def deps_s_ex_set_s ex_store_def)
  have d: "contents (Dependencies_s ex_store ex_set_s) = [Some ex_kafka, Some ex_zookeeper]"
    by (simp add: contents_def Dependencies_s_ex cells_def)
  have m: "mutations (\<lambda>c. 2 * c) [Assign 0 (Some ex_redis), Append None]
          (Dependencies_s ex_store ex_set_s) = Some r'"
    unfolding Dependencies_s_ex r'_def by (rule mutations_ex)
  have q: "Dependencies_s ex_store ex_set_s = Dependencies_s ex_store ex_set_s
      \<or> Dependencies_s ex_store ex_set_s = IngressFor_s (\<lambda>c. 2 * c) ex_store ex_set_s ''app''
      \<or> Dependencies_s ex_store ex_set_s = EgressFor_s (\<lambda>c. 2 * c) ex_store ex_set_s ''app''"
    by simp
  note t = queries_return_fresh_slices [OF v q m, of "''app''"]
  have 1: "contents r' = [Some ex_redis, Some ex_zookeeper, None]"
    by (simp add: contents_def r'_def cells_def)
  from t c have 2: "cells (snd r') (deps_s ex_set_s) = [Some ex_zookeeper, Some ex_kafka]"
    by simp
  from t 2 have 3: "Len_s ex_set_s = 2"
    by simp
  from t d have 4: "contents (Dependencies_s (snd r') ex_set_s) = [Some ex_kafka, Some ex_zookeeper]"
    by simp
  from t have 5: "contents (EgressFor_s (\<lambda>c. 2 * c) (snd r') ex_set_s ''app'')
          = contents (EgressFor_s (\<lambda>c. 2 * c) ex_store ex_set_s ''app'')"
    by simp
  from m 1 2 3 4 5 have "\<exists>r'. mutations (\<lambda>c. 2 * c) [Assign 0 (Some ex_redis), Append None]
          (Dependencies_s ex_store ex_set_s) = Some r'
        \<and> contents r' = [Some ex_redis, Some ex_zookeeper, None]
        \<and> cells (snd r') (deps_s ex_set_s) = [Some ex_zookeeper, Some ex_kafka]
        \<and> Len_s ex_set_s = 2
        \<and> contents (Dependencies_s (snd r') ex_set_s) = [Some ex_kafka, Some ex_zookeeper]
        \<and> contents (EgressFor_s (\<lambda>c. 2 * c) (snd r') ex_set_s ''app'')
          = contents (EgressFor_s (\<lambda>c. 2 * c) ex_store ex_set_s ''app'')"
    by blast
  with v c d show ?thesis
    by (intro conjI)
qed

end
